theory Spec2Isabelle
  imports Complex_Main "HOL-Library.Word"
begin

section \<open>Line selection (tensorflow\_compvision.py)\<close>

text \<open>
  Line positions are numpy integer arrays, modelled as \<open>int list\<close>. The Hough response
  curves, the thresholds and the blurred signals are floating-point values; they are
  modelled as reals, so the rounding error of the floating-point sums is not part of the
  model. An exception of Python is a value of type \<open>error\<close>.
\<close>

datatype error = ValueError | IndexError

subsection \<open>numpy primitives\<close>

text \<open>\<open>np.diff\<close>: consecutive differences \<open>a[1:] - a[:-1]\<close>; empty for fewer than
  two entries.\<close>

fun np_diff :: "int list \<Rightarrow> int list" where
  "np_diff (a # b # rest) = (b - a) # np_diff (b # rest)"
| "np_diff _ = []"

text \<open>A slice \<open>xs[lo:hi]\<close> with indices that are not negative: Python clamps both ends
  to the length and gives the empty list when \<open>hi \<le> lo\<close>.\<close>

definition slice_nat :: "'a list \<Rightarrow> nat \<Rightarrow> nat \<Rightarrow> 'a list" where
  "slice_nat xs lo hi = take (hi - lo) (drop lo xs)"

text \<open>\<open>np.where(arr)[0]\<close>: the indices of the nonzero entries, in ascending order.\<close>

definition np_where :: "real list \<Rightarrow> int list" where
  "np_where arr = map int (filter (\<lambda>i. arr ! i \<noteq> 0) [0..<length arr])"

text \<open>Entry \<open>n\<close> of the full discrete convolution of \<open>a\<close> and \<open>v\<close>:
  the sum of \<open>a[n - m] * v[m]\<close> over the window indices \<open>m\<close>.\<close>

definition convolve_at :: "real list \<Rightarrow> real list \<Rightarrow> nat \<Rightarrow> real" where
  "convolve_at a v n =
     (\<Sum>m\<leftarrow>[0..<length v]. if m \<le> n \<and> n - m < length a then a ! (n - m) * v ! m else 0)"

text \<open>\<open>np.convolve(a, v, mode='same')\<close>: numpy swaps the arguments when \<open>v\<close> is the
  longer one, raises ValueError when either is empty, and returns the centred part of the
  full convolution, as long as the longer argument.\<close>

definition np_convolve_same :: "real list \<Rightarrow> real list \<Rightarrow> error + real list" where
  "np_convolve_same a0 v0 =
     (let (a, v) = (if length v0 > length a0 then (v0, a0) else (a0, v0)) in
      if a = [] \<or> v = [] then Inl ValueError
      else Inr (map (\<lambda>k. convolve_at a v (k + (length v - 1) div 2)) [0..<length a]))"

subsection \<open>checkMatch and pruneLines\<close>

text \<open>The loop of \<open>checkMatch\<close>: \<open>x\<close> is the reference gap, \<open>cnt\<close> the run counter;
  the value is the counter after the last gap.\<close>

fun checkMatch_loop :: "int list \<Rightarrow> int \<Rightarrow> nat \<Rightarrow> nat" where
  "checkMatch_loop [] x cnt = cnt"
| "checkMatch_loop (line # rest) x cnt =
     (if \<bar>line - x\<bar> < 5 then checkMatch_loop rest x (cnt + 1)
      else checkMatch_loop rest line 0)"

definition checkMatch :: "int list \<Rightarrow> bool" where
  "checkMatch lineset = (checkMatch_loop (np_diff lineset) 0 0 = 5)"

text \<open>The loop of \<open>pruneLines\<close> over \<open>enumerate(linediff)\<close>: \<open>i\<close> is the index of the
  gap \<open>line\<close>. The \<open>print(i, x)\<close> of the reset branch writes to standard output only
  and is left out.\<close>

fun pruneLines_loop :: "int list \<Rightarrow> int list \<Rightarrow> nat \<Rightarrow> int \<Rightarrow> nat \<Rightarrow> nat \<Rightarrow> int list" where
  "pruneLines_loop lineset [] i x cnt start_pos = lineset"
| "pruneLines_loop lineset (line # rest) i x cnt start_pos =
     (if \<bar>line - x\<bar> < 5 then
        (if cnt + 1 = 5 then slice_nat lineset start_pos (i + 2)
         else pruneLines_loop lineset rest (i + 1) x (cnt + 1) start_pos)
      else pruneLines_loop lineset rest (i + 1) line 0 i)"

definition pruneLines :: "int list \<Rightarrow> int list" where
  "pruneLines lineset = pruneLines_loop lineset (np_diff lineset) 0 0 0 0"

text \<open>What the specification asks of the validation, in its words: a run of 5
  consecutive gaps, each within 5 pixels of the reference gap in force, exists somewhere
  in the scan.\<close>

fun spec_run_of_5 :: "int list \<Rightarrow> int \<Rightarrow> nat \<Rightarrow> bool" where
  "spec_run_of_5 [] x cnt = False"
| "spec_run_of_5 (line # rest) x cnt =
     (if \<bar>line - x\<bar> < 5 then (cnt + 1 = 5 \<or> spec_run_of_5 rest x (cnt + 1))
      else spec_run_of_5 rest line 0)"

subsection \<open>skeletonize\_1d and getChessLines\<close>

text \<open>The forward pass compares the original \<open>arr[i]\<close> with the working copy at
  \<open>i + 1\<close> for \<open>i\<close> in \<open>range(size - 1)\<close>; the reverse pass runs \<open>i\<close> from
  \<open>size - 1\<close> down to 1 on the working copy.\<close>

definition skeletonize_1d :: "real list \<Rightarrow> real list" where
  "skeletonize_1d arr =
     (let forwards = fold (\<lambda>i arr'. if arr ! i \<le> arr' ! (i + 1) then arr'[i := 0] else arr')
                       [0..<length arr - 1] arr
      in fold (\<lambda>i arr'. if arr' ! (i - 1) > arr' ! i then arr'[i := 0] else arr')
           (rev [1..<length arr]) forwards)"

text \<open>\<open>getChessLines\<close>. The array \<open>scipy.signal.gaussian(21, 4)\<close> comes from a library
  and is the parameter \<open>gaussian_21_4\<close>; the function normalises it by its sum. The
  comparison \<open>hdx > hdx_thresh\<close> gives a boolean array that the convolution reads as
  0 and 1.\<close>

definition getChessLines ::
  "real list \<Rightarrow> real list \<Rightarrow> real list \<Rightarrow> real \<Rightarrow> real \<Rightarrow> error + (int list \<times> int list \<times> bool)" where
  "getChessLines gaussian_21_4 hdx hdy hdx_thresh hdy_thresh =
     (let gausswin = map (\<lambda>g. g / sum_list gaussian_21_4) gaussian_21_4 in
      case np_convolve_same (map (\<lambda>h. if h > hdx_thresh then 1 else 0) hdx) gausswin of
        Inl e \<Rightarrow> Inl e
      | Inr blur_x \<Rightarrow>
      (case np_convolve_same (map (\<lambda>h. if h > hdy_thresh then 1 else 0) hdy) gausswin of
        Inl e \<Rightarrow> Inl e
      | Inr blur_y \<Rightarrow>
         (let skel_x = skeletonize_1d blur_x;
              skel_y = skeletonize_1d blur_y;
              lines_x = pruneLines (np_where skel_x);
              lines_y = pruneLines (np_where skel_y);
              is_match = (length lines_x = 7 \<and> length lines_y = 7
                          \<and> checkMatch lines_x \<and> checkMatch lines_y)
          in Inr (lines_x, lines_y, is_match))))"

text \<open>The two module-level calls that follow the function (lines 357 to 366): the first
  with the thresholds, the second with the thresholds times 0.9; both assign to the same
  three variables. An exception of the first call ends the script.\<close>

definition detect_chess_lines ::
  "real list \<Rightarrow> real list \<Rightarrow> real list \<Rightarrow> real \<Rightarrow> real \<Rightarrow> error + (int list \<times> int list \<times> bool)" where
  "detect_chess_lines gaussian_21_4 hdx hdy hdx_thresh hdy_thresh =
     (case getChessLines gaussian_21_4 hdx hdy hdx_thresh hdy_thresh of
        Inl e \<Rightarrow> Inl e
      | Inr (lines_x, lines_y, is_match) \<Rightarrow>
          getChessLines gaussian_21_4 hdx hdy (hdx_thresh * 0.9) (hdy_thresh * 0.9))"

section \<open>Tile slicing (tensorflow\_compvision.py)\<close>

text \<open>
  A two-dimensional array is the list of its rows; \<open>a.shape\<close> is read off the list. An
  array without rows carries no column count in this representation and has shape (0, 0).
  The pixel type of the source image is left open; the tile stack holds 8-bit words
  (\<open>dtype=np.uint8\<close>), and numpy's conversion on assignment is the parameter
  \<open>to_uint8\<close>; for the floating-point image of line 111 it is \<open>float_to_uint8\<close>
  below.
\<close>

definition shape0 :: "'a list list \<Rightarrow> nat" where
  "shape0 a = length a"

definition shape1 :: "'a list list \<Rightarrow> nat" where
  "shape1 a = (case a of [] \<Rightarrow> 0 | row # _ \<Rightarrow> length row)"

text \<open>A bound of a Python slice against a sequence of length \<open>n\<close>: a negative bound
  counts from the end, and both are clamped into 0..n.\<close>

definition py_bound :: "nat \<Rightarrow> int \<Rightarrow> nat" where
  "py_bound n i = (if i < 0 then nat (int n + i) else min n (nat i))"

definition py_slice :: "'a list \<Rightarrow> int \<Rightarrow> int \<Rightarrow> 'a list" where
  "py_slice xs lo hi = slice_nat xs (py_bound (length xs) lo) (py_bound (length xs) hi)"

text \<open>\<open>a[y1:y2, x1:x2]\<close>.\<close>

definition py_slice2 :: "'a list list \<Rightarrow> int \<Rightarrow> int \<Rightarrow> int \<Rightarrow> int \<Rightarrow> 'a list list" where
  "py_slice2 a y1 y2 x1 x2 = map (\<lambda>row. py_slice row x1 x2) (py_slice a y1 y2)"

text \<open>\<open>np.pad(a, ((top, bottom), (left, right)), mode='edge')\<close>: the border values are
  repeated. numpy raises ValueError when an axis of length 0 is to be extended.\<close>

definition pad_edge_1d :: "'a list \<Rightarrow> nat \<Rightarrow> nat \<Rightarrow> 'a list" where
  "pad_edge_1d xs pad_l pad_r = replicate pad_l (hd xs) @ xs @ replicate pad_r (last xs)"

definition np_pad_edge :: "'a list list \<Rightarrow> nat \<times> nat \<Rightarrow> nat \<times> nat \<Rightarrow> error + 'a list list" where
  "np_pad_edge a pad_y pad_x =
     (if (shape0 a = 0 \<and> pad_y \<noteq> (0, 0)) \<or> (shape1 a = 0 \<and> pad_x \<noteq> (0, 0)) then Inl ValueError
      else Inr (pad_edge_1d (map (\<lambda>row. pad_edge_1d row (fst pad_x) (snd pad_x)) a)
                  (fst pad_y) (snd pad_y)))"

text \<open>\<open>np.mean\<close> of an integer array and \<open>np.round\<close> (halves go to the even
  neighbour). The mean of an empty array is NaN; \<open>chess_grid\<close> below never takes the
  mean of an empty array.\<close>

definition np_mean :: "int list \<Rightarrow> real" where
  "np_mean xs = real_of_int (sum_list xs) / real (length xs)"

definition np_round :: "real \<Rightarrow> int" where
  "np_round v = (let f = \<lfloor>v\<rfloor>; d = v - real_of_int f
                 in if d < 1 / 2 then f else if 1 / 2 < d then f + 1
                    else if even f then f else f + 1)"

text \<open>The padding amounts of lines 430 to 442, as (padl\_y, padr\_y, padl\_x, padr\_x).
  The last test adds \<open>stepx\<close> to the last y line, as the source does.\<close>

definition edge_padding ::
  "int \<Rightarrow> int \<Rightarrow> int list \<Rightarrow> int list \<Rightarrow> nat \<Rightarrow> nat \<Rightarrow> int \<times> int \<times> int \<times> int" where
  "edge_padding stepx stepy lines_x lines_y a_shape0 a_shape1 =
     (let padl_x = (if hd lines_x - stepx < 0 then \<bar>hd lines_x - stepx\<bar> else 0);
          padr_x = (if last lines_x + stepx > int a_shape1 - 1
                    then \<bar>last lines_x + stepx - int a_shape1\<bar> else 0);
          padl_y = (if hd lines_y - stepy < 0 then \<bar>hd lines_y - stepy\<bar> else 0);
          padr_y = (if last lines_y + stepx > int a_shape0 - 1
                    then \<bar>last lines_y + stepy - int a_shape0\<bar> else 0)
      in (padl_y, padr_y, padl_x, padr_x))"

text \<open>The first half of \<open>getChessTiles\<close> (lines 423 to 453): the steps, the padded and
  cropped image \<open>a2\<close> and the nine boundary positions per axis, relative to the crop.
  With no line the source raises IndexError at \<open>lines_x[0]\<close>; with a single line the
  mean of no differences is NaN, whose conversion to int32 is not defined (a negative
  step on x86, for which \<open>np.zeros\<close> raises ValueError): both are errors here.\<close>

definition chess_grid ::
  "'a list list \<Rightarrow> int list \<Rightarrow> int list
     \<Rightarrow> error + ('a list list \<times> int list \<times> int list \<times> int \<times> int)" where
  "chess_grid a lines_x lines_y =
     (if lines_x = [] \<or> lines_y = [] then Inl IndexError
      else if length lines_x < 2 \<or> length lines_y < 2 then Inl ValueError
      else
        (let stepx = np_round (np_mean (np_diff lines_x));
             stepy = np_round (np_mean (np_diff lines_y));
             (padl_y, padr_y, padl_x, padr_x) =
                edge_padding stepx stepy lines_x lines_y (shape0 a) (shape1 a)
         in case np_pad_edge a (nat padl_y, nat padr_y) (nat padl_x, nat padr_x) of
              Inl e \<Rightarrow> Inl e
            | Inr a2 \<Rightarrow>
               (let setsx = map (\<lambda>v. v + padl_x)
                              ([hd lines_x - stepx] @ lines_x @ [last lines_x + stepx]);
                    setsy = map (\<lambda>v. v + padl_y)
                              ([hd lines_y - stepy] @ lines_y @ [last lines_y + stepy]);
                    a2 = py_slice2 a2 (hd setsy) (last setsy) (hd setsx) (last setsx);
                    setsx = map (\<lambda>v. v - hd setsx) setsx;
                    setsy = map (\<lambda>v. v - hd setsy) setsy
                in Inr (a2, setsx, setsy, stepx, stepy))))"

text \<open>The bounds and paddings of one cell along one axis (lines 467 to 485 for x,
  487 to 501 for y): (x1, x2, padl, padr).\<close>

definition cell_span :: "int list \<Rightarrow> int \<Rightarrow> nat \<Rightarrow> int \<times> int \<times> int \<times> int" where
  "cell_span sets step i =
     (let x1 = sets ! i; x2 = sets ! (i + 1) in
      if x2 - x1 > step then (if i = 7 then (x2 - step, x2, 0, 0) else (x1, x1 + step, 0, 0))
      else if x2 - x1 < step then
        (if i = 7 then (x1, x2, 0, step - (x2 - x1)) else (x1, x2, step - (x2 - x1), 0))
      else (x1, x2, 0, 0))"

text \<open>The right-hand side of line 505 for column \<open>i\<close> and row \<open>j\<close>: the padded slice.
  Reading \<open>sets[i + 1]\<close> beyond the array raises IndexError.\<close>

definition cell_tile ::
  "'a list list \<Rightarrow> int list \<Rightarrow> int list \<Rightarrow> int \<Rightarrow> int \<Rightarrow> nat \<Rightarrow> nat \<Rightarrow> error + 'a list list" where
  "cell_tile a2 setsx setsy stepx stepy i j =
     (if length setsx \<le> i + 1 \<or> length setsy \<le> j + 1 then Inl IndexError
      else
        (let (x1, x2, padl_x, padr_x) = cell_span setsx stepx i;
             (y1, y2, padl_y, padr_y) = cell_span setsy stepy j
         in np_pad_edge (py_slice2 a2 y1 y2 x1 x2)
              (nat padl_y, nat padr_y) (nat padl_x, nat padr_x)))"

text \<open>The assignment \<open>squares[:, :, k] = t\<close> into a plane of \<open>rows\<close> by \<open>cols\<close>
  pixels: numpy broadcasts an axis of length 1 and raises ValueError for any other
  mismatch of shape.\<close>

definition assign_tile ::
  "('a \<Rightarrow> 8 word) \<Rightarrow> nat \<Rightarrow> nat \<Rightarrow> 'a list list \<Rightarrow> error + 8 word list list" where
  "assign_tile to_uint8 rows cols t =
     (if t = [] then (if rows = 0 then Inr [] else Inl ValueError)
      else if (length t = rows \<or> length t = 1) \<and> (shape1 t = cols \<or> shape1 t = 1) then
        Inr (map (\<lambda>row. map to_uint8 (if shape1 t = cols then row else replicate cols (hd row)))
               (if length t = rows then t else replicate rows (hd t)))
      else Inl ValueError)"

text \<open>The plane that line 505 stores for column \<open>i\<close> and row \<open>j\<close> of a grid.\<close>

definition square_tile ::
  "('a \<Rightarrow> 8 word) \<Rightarrow> 'a list list \<times> int list \<times> int list \<times> int \<times> int \<Rightarrow> nat \<Rightarrow> nat
     \<Rightarrow> error + 8 word list list" where
  "square_tile to_uint8 grid i j =
     (case grid of (a2, setsx, setsy, stepx, stepy) \<Rightarrow>
        (case cell_tile a2 setsx setsy stepx stepy i j of
           Inl e \<Rightarrow> Inl e
         | Inr t \<Rightarrow> assign_tile to_uint8 (nat stepy) (nat stepx) t))"

text \<open>The nested loops of lines 463 to 505 over the pairs (i, j), \<open>i\<close> outermost; the
  stack \<open>squares\<close> is the list of its 64 planes \<open>squares[:, :, k]\<close>.\<close>

fun fill_squares ::
  "(nat \<Rightarrow> nat \<Rightarrow> error + 8 word list list) \<Rightarrow> (nat \<times> nat) list \<Rightarrow> 8 word list list list
     \<Rightarrow> error + 8 word list list list" where
  "fill_squares tile [] squares = Inr squares"
| "fill_squares tile ((i, j) # rest) squares =
     (case tile i j of
        Inl e \<Rightarrow> Inl e
      | Inr t \<Rightarrow> fill_squares tile rest (squares[(7 - j) * 8 + i := t]))"

definition loop_order :: "(nat \<times> nat) list" where
  "loop_order = concat (map (\<lambda>i. map (\<lambda>j. (i, j)) [0..<8]) [0..<8])"

definition getChessTiles ::
  "('a \<Rightarrow> 8 word) \<Rightarrow> 'a list list \<Rightarrow> int list \<Rightarrow> int list \<Rightarrow> error + 8 word list list list" where
  "getChessTiles to_uint8 a lines_x lines_y =
     (case chess_grid a lines_x lines_y of
        Inl e \<Rightarrow> Inl e
      | Inr (a2, setsx, setsy, stepx, stepy) \<Rightarrow>
          if stepy < 0 \<or> stepx < 0 then Inl ValueError
          else fill_squares (square_tile to_uint8 (a2, setsx, setsy, stepx, stepy)) loop_order
                 (replicate 64 (replicate (nat stepy) (replicate (nat stepx) 0))))"

text \<open>Plane \<open>k\<close> of a returned stack.\<close>

definition stack_tile :: "error + 'b list \<Rightarrow> nat \<Rightarrow> 'b option" where
  "stack_tile result k =
     (case result of Inl e \<Rightarrow> None
      | Inr squares \<Rightarrow> if k < length squares then Some (squares ! k) else None)"

subsection \<open>Pixel values of the stack\<close>

text \<open>The image of line 111 is an array of \<open>float32\<close> intensities. Assigning a
  floating-point value into the \<open>uint8\<close> stack (lines 460 and 505) converts it as the C
  cast does: the fraction is dropped (truncation toward zero) and the low 8 bits of the
  integer are kept. Intensities are reals here: NaN, the infinities and magnitudes beyond
  the range of the intermediate machine integer are not represented.\<close>

definition trunc_toward_zero :: "real \<Rightarrow> int" where
  "trunc_toward_zero v = (if v < 0 then \<lceil>v\<rceil> else \<lfloor>v\<rfloor>)"

definition float_to_uint8 :: "real \<Rightarrow> 8 word" where
  "float_to_uint8 v = word_of_int (trunc_toward_zero v)"

text \<open>The values that the assignment of line 505 converts: the tile \<open>t\<close> as numpy
  broadcasts it to a plane of \<open>rows\<close> by \<open>cols\<close> pixels (an axis of length 1 is
  repeated), written as in \<open>assign_tile\<close>.\<close>

definition broadcast_to :: "nat \<Rightarrow> nat \<Rightarrow> 'a list list \<Rightarrow> 'a list list" where
  "broadcast_to rows cols t =
     map (\<lambda>row. if shape1 t = cols then row else replicate cols (hd row))
       (if length t = rows then t else replicate rows (hd t))"

text \<open>A list of rows stands for a two-dimensional array when its rows have one length.\<close>

definition rectangular :: "'a list list \<Rightarrow> bool" where
  "rectangular a = list_all (\<lambda>row. length row = shape1 a) a"

section \<open>Random FEN strings (tensorflow\_generate\_training\_data.py)\<close>

definition fen_chars :: "char list" where
  "fen_chars = ''1KQRBNPkqrbnp''"

text \<open>\<open>sep.join(parts)\<close>.\<close>

fun join :: "string \<Rightarrow> string list \<Rightarrow> string" where
  "join sep [] = []"
| "join sep [s] = s"
| "join sep (s # rest) = s @ sep @ join sep rest"

text \<open>\<open>getRandomFEN\<close>; \<open>pieces\<close> is the array that \<open>np.random.choice(fen_chars, 64)\<close>
  returned, an array of one-character strings.\<close>

definition getRandomFEN :: "char list \<Rightarrow> string" where
  "getRandomFEN pieces =
     join ''/'' (map (\<lambda>i. join [] (map (\<lambda>c. [c]) (slice_nat pieces (i * 8) ((i + 1) * 8))))
                   [0..<8])"

text \<open>The groups of a string between occurrences of a delimiter (\<open>str.split\<close>).\<close>

fun split_on :: "char \<Rightarrow> string \<Rightarrow> string list" where
  "split_on sep [] = [[]]"
| "split_on sep (c # cs) =
     (if c = sep then [] # split_on sep cs
      else (case split_on sep cs of [] \<Rightarrow> [[c]] | g # gs \<Rightarrow> (c # g) # gs))"

section \<open>List-recursive forms for evaluation\<close>

text \<open>
  The loops of \<open>skeletonize_1d\<close>, \<open>np.where\<close> and \<open>np.convolve\<close> index into arrays.
  The functions of this section compute the same values by recursion over the list; each
  is proved equal to the model of the source in the helper lemmas, and they serve only to
  evaluate the examples.
\<close>

text \<open>The forward pass of \<open>skeletonize_1d\<close>: an entry not greater than its right
  neighbour becomes 0. The reverse pass: an entry smaller than its left neighbour (as
  left by the forward pass, \<open>p\<close>) becomes 0.\<close>

fun forward_pass :: "real list \<Rightarrow> real list" where
  "forward_pass (a # b # rest) = (if a \<le> b then 0 else a) # forward_pass (b # rest)"
| "forward_pass xs = xs"

fun reverse_pass :: "real \<Rightarrow> real list \<Rightarrow> real list" where
  "reverse_pass p [] = []"
| "reverse_pass p (c # rest) = (if p > c then 0 else c) # reverse_pass c rest"

definition skeleton_rec :: "real list \<Rightarrow> real list" where
  "skeleton_rec arr = (case forward_pass arr of [] \<Rightarrow> [] | f # rest \<Rightarrow> f # reverse_pass f rest)"

fun nonzero_from :: "nat \<Rightarrow> real list \<Rightarrow> int list" where
  "nonzero_from k [] = []"
| "nonzero_from k (x # xs) = (if x \<noteq> 0 then int k # nonzero_from (k + 1) xs else nonzero_from (k + 1) xs)"

text \<open>The sum of products of two lists, up to the shorter one; the values
  \<open>dot p w\<close> of a window \<open>w\<close> at the successive positions of a signal \<open>p\<close>, one per
  entry of the first argument.\<close>

fun dot :: "real list \<Rightarrow> real list \<Rightarrow> real" where
  "dot (x # xs) (y # ys) = x * y + dot xs ys"
| "dot _ _ = 0"

fun slide :: "real list \<Rightarrow> real list \<Rightarrow> real list \<Rightarrow> real list" where
  "slide [] p w = []"
| "slide (x # xs) p w = dot p w # slide xs (tl p) w"

section \<open>Example inputs\<close>

text \<open>The window \<open>exp (- k\<^sup>2 / 32)\<close> for \<open>k\<close> from -10 to 10, to four decimals.\<close>

definition window_21_4 :: "real list" where
  "window_21_4 =
     [0.0439, 0.0796, 0.1353, 0.2163, 0.3247, 0.4578, 0.6065, 0.7548, 0.8825, 0.9692, 1,
      0.9692, 0.8825, 0.7548, 0.6065, 0.4578, 0.3247, 0.2163, 0.1353, 0.0796, 0.0439]"

text \<open>A response curve of 97 samples: peaks of height 100 at 12, 24, ..., 84 and a
  weaker peak of height 57 at 42.\<close>

definition curve_97 :: "real list" where
  "curve_97 =
     [0, 0, 0, 0, 0, 0, 0, 0, 0, 0, 0, 0, 100, 0, 0, 0, 0, 0, 0, 0, 0, 0, 0, 0,
      100, 0, 0, 0, 0, 0, 0, 0, 0, 0, 0, 0, 100, 0, 0, 0, 0, 0, 57, 0, 0, 0, 0, 0,
      100, 0, 0, 0, 0, 0, 0, 0, 0, 0, 0, 0, 100, 0, 0, 0, 0, 0, 0, 0, 0, 0, 0, 0,
      100, 0, 0, 0, 0, 0, 0, 0, 0, 0, 0, 0, 100, 0, 0, 0, 0, 0, 0, 0, 0, 0, 0, 0,
      0]"

text \<open>An image of 40 by 40 pixels showing 8 by 8 squares of 5 pixels; every pixel holds
  the number of its square, counted row by row from the top left (0 to 63).\<close>

definition board_40 :: "nat list list" where
  "board_40 = map (\<lambda>r. map (\<lambda>c. (r div 5) * 8 + c div 5) [0..<40]) [0..<40]"

text \<open>The same image with floating-point intensities: square \<open>n\<close> has intensity
  \<open>4.5 * n - 10\<close>, from -10 (square 0) to 273.5 (square 63).\<close>

definition gray_40 :: "real list list" where
  "gray_40 = map (map (\<lambda>n. real n * 9 / 2 - 10)) board_40"

text \<open>Seven lines with a constant gap: \<open>gap, 2 * gap, ..., 7 * gap\<close>.\<close>

definition even_lines :: "int \<Rightarrow> int list" where
  "even_lines gap = map (\<lambda>k. k * gap) [1, 2, 3, 4, 5, 6, 7]"

section \<open>Helper lemmas\<close>

subsection \<open>Line selection\<close>

lemma np_convolve_same_returns:
  "a \<noteq> [] \<Longrightarrow> v \<noteq> [] \<Longrightarrow> \<exists>b. np_convolve_same a v = Inr b"
  by (simp add: np_convolve_same_def)

lemma np_convolve_same_empty:
  "a = [] \<or> v = [] \<Longrightarrow> np_convolve_same a v = Inl ValueError"
  by (auto simp: np_convolve_same_def)

lemma getChessLines_returns:
  assumes "hdx \<noteq> []" "hdy \<noteq> []" "g \<noteq> []"
  shows "\<exists>blur_x blur_y.
           getChessLines g hdx hdy tx ty =
             Inr (pruneLines (np_where (skeletonize_1d blur_x)),
                  pruneLines (np_where (skeletonize_1d blur_y)),
                  length (pruneLines (np_where (skeletonize_1d blur_x))) = 7
                  \<and> length (pruneLines (np_where (skeletonize_1d blur_y))) = 7
                  \<and> checkMatch (pruneLines (np_where (skeletonize_1d blur_x)))
                  \<and> checkMatch (pruneLines (np_where (skeletonize_1d blur_y))))"
proof -
  let ?w = "map (\<lambda>v. v / sum_list g) g"
  have w: "?w \<noteq> []" using assms(3) by simp
  obtain bx where bx: "np_convolve_same (map (\<lambda>h. if h > tx then 1 else 0) hdx) ?w = Inr bx"
    using np_convolve_same_returns[OF _ w, of "map (\<lambda>h. if h > tx then 1 else 0) hdx"] assms(1)
    by auto
  obtain "by" where "by": "np_convolve_same (map (\<lambda>h. if h > ty then 1 else 0) hdy) ?w = Inr by"
    using np_convolve_same_returns[OF _ w, of "map (\<lambda>h. if h > ty then 1 else 0) hdy"] assms(2)
    by auto
  show ?thesis
    unfolding getChessLines_def Let_def bx "by" by auto
qed

lemma getChessLines_raises:
  assumes "hdx = [] \<or> hdy = [] \<or> g = []"
  shows "getChessLines g hdx hdy tx ty = Inl ValueError"
proof -
  let ?w = "map (\<lambda>v. v / sum_list g) g"
  let ?bx = "map (\<lambda>h. if h > tx then (1::real) else 0) hdx"
  let ?by = "map (\<lambda>h. if h > ty then (1::real) else 0) hdy"
  show ?thesis
  proof (cases "hdx = [] \<or> g = []")
    case True
    then have "np_convolve_same ?bx ?w = Inl ValueError"
      by (intro np_convolve_same_empty) auto
    then show ?thesis
      unfolding getChessLines_def Let_def by simp
  next
    case False
    with assms have "hdy = []" by simp
    then have y: "np_convolve_same ?by ?w = Inl ValueError"
      by (intro np_convolve_same_empty) auto
    from False obtain bx where "np_convolve_same ?bx ?w = Inr bx"
      using np_convolve_same_returns[of ?bx ?w] by auto
    with y show ?thesis
      unfolding getChessLines_def Let_def by simp
  qed
qed

lemma getChessLines_Inr_form:
  assumes "getChessLines g hdx hdy tx ty = Inr (lines_x, lines_y, is_match)"
  shows "\<exists>blur_x blur_y.
           lines_x = pruneLines (np_where (skeletonize_1d blur_x))
         \<and> lines_y = pruneLines (np_where (skeletonize_1d blur_y))
         \<and> is_match = (length lines_x = 7 \<and> length lines_y = 7
                         \<and> checkMatch lines_x \<and> checkMatch lines_y)"
  using assms unfolding getChessLines_def Let_def
  by (auto split: sum.splits)

lemma np_where_strictly_increasing: "sorted_wrt (<) (np_where arr)"
proof -
  have "sorted_wrt (<) (filter (\<lambda>i. arr ! i \<noteq> 0) [0..<length arr])"
    by (rule sorted_wrt_filter) simp
  then show ?thesis
    unfolding np_where_def by (simp add: sorted_wrt_map)
qed

lemma slice_strictly_increasing:
  "sorted_wrt (<) xs \<Longrightarrow> sorted_wrt (<) (slice_nat xs lo hi)"
  unfolding slice_nat_def by (intro sorted_wrt_take sorted_wrt_drop)

lemma pruneLines_loop_result:
  "pruneLines_loop lineset ds i x cnt start_pos = lineset
   \<or> (\<exists>lo hi. pruneLines_loop lineset ds i x cnt start_pos = slice_nat lineset lo hi)"
  by (induction ds arbitrary: i x cnt start_pos) auto

lemma pruneLines_result:
  "pruneLines lineset = lineset \<or> (\<exists>lo hi. pruneLines lineset = slice_nat lineset lo hi)"
  unfolding pruneLines_def by (rule pruneLines_loop_result)

lemma pruneLines_strictly_increasing:
  "sorted_wrt (<) lineset \<Longrightarrow> sorted_wrt (<) (pruneLines lineset)"
  using pruneLines_result[of lineset] slice_strictly_increasing by auto

lemma even_lines_validated:
  "5 \<le> gap \<Longrightarrow> length (even_lines gap) = 7 \<and> sorted_wrt (<) (even_lines gap)
     \<and> checkMatch (even_lines gap) \<and> pruneLines (even_lines gap) = even_lines gap"
  by (simp add: even_lines_def checkMatch_def pruneLines_def slice_nat_def)

subsection \<open>Evaluation of the line selection\<close>

lemma forward_pass_length [simp]: "length (forward_pass xs) = length xs"
  by (induction xs rule: forward_pass.induct) simp_all

lemma forward_pass_nth:
  "i < length xs \<Longrightarrow>
   forward_pass xs ! i = (if i + 1 < length xs \<and> xs ! i \<le> xs ! (i + 1) then 0 else xs ! i)"
proof (induction xs arbitrary: i rule: forward_pass.induct)
  case (1 a b rest)
  then show ?case by (cases i) simp_all
qed simp_all

lemma reverse_pass_length [simp]: "length (reverse_pass p xs) = length xs"
  by (induction xs arbitrary: p) simp_all

lemma reverse_pass_nth:
  "i < length xs \<Longrightarrow>
   reverse_pass p xs ! i = (if (if i = 0 then p else xs ! (i - 1)) > xs ! i then 0 else xs ! i)"
proof (induction xs arbitrary: p i)
  case Nil
  then show ?case by simp
next
  case (Cons c rest)
  show ?case
  proof (cases i)
    case 0
    then show ?thesis by simp
  next
    case (Suc k)
    with Cons.prems have "k < length rest" by simp
    from Cons.IH[OF this, of c] Suc show ?thesis by (cases k) simp_all
  qed
qed

lemma forward_fold:
  "k \<le> length arr - 1 \<Longrightarrow>
   fold (\<lambda>i arr'. if arr ! i \<le> arr' ! (i + 1) then arr'[i := 0] else arr') [0..<k] arr
     = map (\<lambda>i. if i < k then forward_pass arr ! i else arr ! i) [0..<length arr]"
proof (induction k)
  case 0
  show ?case by (simp add: map_nth)
next
  case (Suc k)
  let ?n = "length arr"
  let ?s = "map (\<lambda>i. if i < k then forward_pass arr ! i else arr ! i) [0..<?n]"
  from Suc.prems have k: "k + 1 < ?n" by simp
  have IH: "fold (\<lambda>i arr'. if arr ! i \<le> arr' ! (i + 1) then arr'[i := 0] else arr') [0..<k] arr = ?s"
    using Suc by simp
  have s1: "?s ! (k + 1) = arr ! (k + 1)" using k by simp
  have fk: "forward_pass arr ! k = (if arr ! k \<le> arr ! (k + 1) then 0 else arr ! k)"
    using forward_pass_nth[of k arr] k by simp
  have "(if arr ! k \<le> ?s ! (k + 1) then ?s[k := 0] else ?s)
          = map (\<lambda>i. if i < Suc k then forward_pass arr ! i else arr ! i) [0..<?n]"
  proof (rule nth_equalityI)
    show "length (if arr ! k \<le> ?s ! (k + 1) then ?s[k := 0] else ?s)
            = length (map (\<lambda>i. if i < Suc k then forward_pass arr ! i else arr ! i) [0..<?n])"
      by simp
  next
    fix i assume "i < length (if arr ! k \<le> ?s ! (k + 1) then ?s[k := 0] else ?s)"
    then have i: "i < ?n" by (simp split: if_splits)
    show "(if arr ! k \<le> ?s ! (k + 1) then ?s[k := 0] else ?s) ! i
            = map (\<lambda>i. if i < Suc k then forward_pass arr ! i else arr ! i) [0..<?n] ! i"
      using i k fk s1 by (cases "i = k") (auto simp: nth_list_update less_Suc_eq)
  qed
  then show ?case
    unfolding upt_Suc_append[OF le0] fold_append o_apply IH by simp
qed

lemma forward_fold_all:
  "fold (\<lambda>i arr'. if arr ! i \<le> arr' ! (i + 1) then arr'[i := 0] else arr') [0..<length arr - 1] arr
     = forward_pass arr"
proof -
  have "map (\<lambda>i. if i < length arr - 1 then forward_pass arr ! i else arr ! i) [0..<length arr]
          = forward_pass arr"
    by (rule nth_equalityI) (auto simp: forward_pass_nth)
  with forward_fold[of "length arr - 1" arr] show ?thesis by simp
qed

lemma reverse_fold:
  "d \<le> length f - 1 \<Longrightarrow>
   fold (\<lambda>i arr'. if arr' ! (i - 1) > arr' ! i then arr'[i := 0] else arr') (rev [length f - d..<length f]) f
     = map (\<lambda>i. if length f - d \<le> i \<and> f ! (i - 1) > f ! i then 0 else f ! i) [0..<length f]"
proof (induction d)
  case 0
  show ?case by (auto intro!: nth_equalityI)
next
  case (Suc d)
  let ?n = "length f"
  let ?k = "?n - Suc d"
  let ?s = "map (\<lambda>i. if ?n - d \<le> i \<and> f ! (i - 1) > f ! i then 0 else f ! i) [0..<?n]"
  from Suc.prems have k: "1 \<le> ?k" "?k < ?n" "Suc ?k = ?n - d" by simp_all
  have IH: "fold (\<lambda>i arr'. if arr' ! (i - 1) > arr' ! i then arr'[i := 0] else arr') (rev [?n - d..<?n]) f = ?s"
    using Suc by simp
  have up: "[?k..<?n] = ?k # [?n - d..<?n]"
    using k by (simp add: upt_conv_Cons)
  have nle: "\<not> ?n - d \<le> ?k" "\<not> ?n - d \<le> ?k - 1" "?k - 1 < ?n"
    using k by arith+
  have sk: "?s ! ?k = f ! ?k" "?s ! (?k - 1) = f ! (?k - 1)"
    using k(2) nle by (simp_all del: One_nat_def)
  have st: "(if ?s ! (?k - 1) > ?s ! ?k then ?s[?k := 0] else ?s)
          = map (\<lambda>i. if ?k \<le> i \<and> f ! (i - 1) > f ! i then 0 else f ! i) [0..<?n]"
  proof (rule nth_equalityI)
    show "length (if ?s ! (?k - 1) > ?s ! ?k then ?s[?k := 0] else ?s)
            = length (map (\<lambda>i. if ?k \<le> i \<and> f ! (i - 1) > f ! i then 0 else f ! i) [0..<?n])"
      by simp
  next
    fix i assume "i < length (if ?s ! (?k - 1) > ?s ! ?k then ?s[?k := 0] else ?s)"
    then have i: "i < ?n" by (simp split: if_splits)
    show "(if ?s ! (?k - 1) > ?s ! ?k then ?s[?k := 0] else ?s) ! i
            = map (\<lambda>i. if ?k \<le> i \<and> f ! (i - 1) > f ! i then 0 else f ! i) [0..<?n] ! i"
    proof (cases "i = ?k")
      case True
      then show ?thesis using i k unfolding sk by (simp add: nth_list_update)
    next
      case False
      then have "(?k \<le> i) = (?n - d \<le> i)" using k by arith
      with False i show ?thesis unfolding sk by (simp add: nth_list_update)
    qed
  qed
  show ?case
    unfolding up rev.simps fold_append o_apply IH fold.simps id_apply by (rule st)
qed

lemma skeletonize_1d_rec: "skeletonize_1d arr = skeleton_rec arr"
proof (cases "arr = []")
  case True
  then show ?thesis by (simp add: skeletonize_1d_def skeleton_rec_def)
next
  case False
  let ?f = "forward_pass arr"
  have n: "length ?f = length arr" "0 < length arr" using False by simp_all
  obtain f0 rest where fr: "?f = f0 # rest"
    using n by (cases ?f) auto
  have "skeletonize_1d arr
          = fold (\<lambda>i arr'. if arr' ! (i - 1) > arr' ! i then arr'[i := 0] else arr') (rev [1..<length ?f]) ?f"
    unfolding skeletonize_1d_def Let_def forward_fold_all by simp
  also have "\<dots> = map (\<lambda>i. if 1 \<le> i \<and> ?f ! (i - 1) > ?f ! i then 0 else ?f ! i) [0..<length ?f]"
    using reverse_fold[of "length ?f - 1" ?f] n by simp
  also have "\<dots> = f0 # reverse_pass f0 rest"
  proof (rule nth_equalityI)
    show "length (map (\<lambda>i. if 1 \<le> i \<and> ?f ! (i - 1) > ?f ! i then 0 else ?f ! i) [0..<length ?f])
            = length (f0 # reverse_pass f0 rest)"
      by (simp add: fr)
  next
    fix i assume "i < length (map (\<lambda>i. if 1 \<le> i \<and> ?f ! (i - 1) > ?f ! i then 0 else ?f ! i) [0..<length ?f])"
    then have i: "i < length ?f" by simp
    then have lhs: "map (\<lambda>i. if 1 \<le> i \<and> ?f ! (i - 1) > ?f ! i then 0 else ?f ! i) [0..<length ?f] ! i
                 = (if 1 \<le> i \<and> ?f ! (i - 1) > ?f ! i then 0 else ?f ! i)"
      by simp
    show "map (\<lambda>i. if 1 \<le> i \<and> ?f ! (i - 1) > ?f ! i then 0 else ?f ! i) [0..<length ?f] ! i
            = (f0 # reverse_pass f0 rest) ! i"
      unfolding lhs
    proof (cases i)
      case 0
      then show "(if 1 \<le> i \<and> ?f ! (i - 1) > ?f ! i then 0 else ?f ! i) = (f0 # reverse_pass f0 rest) ! i"
        by (simp add: fr)
    next
      case (Suc k)
      with i have k: "k < length rest" by (simp add: fr)
      show "(if 1 \<le> i \<and> ?f ! (i - 1) > ?f ! i then 0 else ?f ! i) = (f0 # reverse_pass f0 rest) ! i"
        using Suc k reverse_pass_nth[OF k, of f0]
        by (cases k) (simp_all add: fr)
    qed
  qed
  finally show ?thesis by (simp add: skeleton_rec_def fr)
qed

lemma nonzero_from_filter:
  "nonzero_from k xs = map (\<lambda>i. int (i + k)) (filter (\<lambda>i. xs ! i \<noteq> 0) [0..<length xs])"
proof (induction xs arbitrary: k)
  case Nil
  then show ?case by simp
next
  case (Cons x xs)
  have up: "[0..<length (x # xs)] = 0 # map Suc [0..<length xs]"
    by (simp add: upt_conv_Cons map_Suc_upt del: upt_Suc)
  show ?case
    unfolding up using Cons.IH[of "k + 1"]
    by (simp add: filter_map o_def)
qed

lemma np_where_rec: "np_where arr = nonzero_from 0 arr"
  by (simp add: np_where_def nonzero_from_filter)

lemma sum_list_upt_Suc_shift:
  "(\<Sum>m\<leftarrow>[0..<Suc n]. f m) = f 0 + (\<Sum>m\<leftarrow>[0..<n]. f (Suc m))"
proof -
  have "[0..<Suc n] = 0 # map Suc [0..<n]"
    by (simp add: upt_conv_Cons map_Suc_upt del: upt_Suc)
  then show ?thesis by (simp add: o_def del: upt_Suc)
qed

lemma dot_sum:
  "dot xs ys = (\<Sum>m\<leftarrow>[0..<min (length xs) (length ys)]. xs ! m * ys ! m)"
proof (induction xs ys rule: dot.induct)
  case (1 x xs y ys)
  have "min (length (x # xs)) (length (y # ys)) = Suc (min (length xs) (length ys))"
    by simp
  then show ?case
    using 1 by (simp only: sum_list_upt_Suc_shift dot.simps) simp
qed simp_all

lemma slide_map: "slide xs p w = map (\<lambda>k. dot (drop k p) w) [0..<length xs]"
proof (induction xs arbitrary: p)
  case Nil
  then show ?case by simp
next
  case (Cons x xs)
  have "[0..<length (x # xs)] = 0 # map Suc [0..<length xs]"
    by (simp add: upt_conv_Cons map_Suc_upt del: upt_Suc)
  then show ?case
    using Cons.IH[of "tl p"] by (simp add: o_def drop_Suc del: upt_Suc)
qed

lemma sum_list_upt_rev:
  "(\<Sum>m\<leftarrow>[0..<n]. f m) = (\<Sum>m\<leftarrow>[0..<n]. (f (n - 1 - m) :: real))"
proof -
  have r: "rev [0..<n] = map (\<lambda>m. n - 1 - m) [0..<n]"
    by (rule nth_equalityI) (simp_all add: rev_nth)
  have "(\<Sum>m\<leftarrow>[0..<n]. f m) = sum_list (rev (map f [0..<n]))"
    by (rule sum_list_rev[symmetric])
  also have "\<dots> = sum_list (map f (rev [0..<n]))"
    by (simp only: rev_map)
  also have "\<dots> = (\<Sum>m\<leftarrow>[0..<n]. f (n - 1 - m))"
    unfolding r by (simp add: o_def)
  finally show ?thesis .
qed

lemma padded_nth:
  assumes "m < M" "off \<le> M - 1" "k < N" "length a = N"
  shows "(replicate (M - 1 - off) 0 @ a @ replicate off (0::real)) ! (k + (M - 1 - m))
           = (if m \<le> k + off \<and> k + off - m < N then a ! (k + off - m) else 0)"
proof (cases "m \<le> k + off")
  case False
  then have "k + (M - 1 - m) < M - 1 - off" using assms by arith
  then show ?thesis using False by (simp add: nth_append)
next
  case True
  then have ge: "\<not> k + (M - 1 - m) < M - 1 - off"
    and eq: "k + (M - 1 - m) - (M - 1 - off) = k + off - m"
    using assms by arith+
  show ?thesis
  proof (cases "k + off - m < N")
    case True
    with \<open>m \<le> k + off\<close> ge eq show ?thesis
      using assms(4) by (simp add: nth_append)
  next
    case False
    then have "k + off - m - N < off" using assms True by arith
    with \<open>m \<le> k + off\<close> ge eq False show ?thesis
      using assms(4) by (simp add: nth_append)
  qed
qed

lemma convolve_at_dot:
  assumes "k < length a" "length v \<le> length a" "v \<noteq> []"
  shows "convolve_at a v (k + (length v - 1) div 2)
           = dot (drop k (replicate (length v - 1 - (length v - 1) div 2) 0 @ a
                            @ replicate ((length v - 1) div 2) 0)) (rev v)"
proof -
  let ?M = "length v" and ?N = "length a"
  let ?off = "(?M - 1) div 2"
  let ?p = "replicate (?M - 1 - ?off) 0 @ a @ replicate ?off (0::real)"
  have M: "0 < ?M" using assms(3) by simp
  have off: "?off \<le> ?M - 1" by simp
  have "length ?p = (?M - 1 - ?off) + ?N + ?off" by simp
  then have lp: "length ?p = ?N + ?M - 1" using off M by arith
  have ld: "length (drop k ?p) = ?N + ?M - 1 - k"
    by (simp only: length_drop lp)
  have mn: "min (length (drop k ?p)) (length (rev v)) = ?M"
    unfolding ld length_rev using assms(1) M by arith
  have "dot (drop k ?p) (rev v) = (\<Sum>m\<leftarrow>[0..<?M]. drop k ?p ! m * rev v ! m)"
    unfolding dot_sum mn ..
  also have "\<dots> = (\<Sum>m\<leftarrow>[0..<?M]. drop k ?p ! (?M - 1 - m) * rev v ! (?M - 1 - m))"
    by (rule sum_list_upt_rev)
  also have "\<dots> = (\<Sum>m\<leftarrow>[0..<?M]. if m \<le> k + ?off \<and> k + ?off - m < ?N
                                 then a ! (k + ?off - m) * v ! m else 0)"
  proof (rule arg_cong[where f = sum_list], rule map_cong[OF refl])
    fix m assume "m \<in> set [0..<?M]"
    then have m: "m < ?M" by simp
    have "k \<le> length ?p" using assms(1) M unfolding lp by arith
    then have d: "drop k ?p ! (?M - 1 - m) = ?p ! (k + (?M - 1 - m))"
      by (rule nth_drop)
    have r: "rev v ! (?M - 1 - m) = v ! m"
      using m by (simp add: rev_nth)
    show "drop k ?p ! (?M - 1 - m) * rev v ! (?M - 1 - m)
            = (if m \<le> k + ?off \<and> k + ?off - m < ?N then a ! (k + ?off - m) * v ! m else 0)"
      unfolding d r padded_nth[OF m off assms(1) refl] by simp
  qed
  finally show ?thesis
    unfolding convolve_at_def by simp
qed

lemma np_convolve_same_slide:
  assumes "v \<noteq> []" "length v \<le> length a"
  shows "np_convolve_same a v
           = Inr (slide a (replicate (length v - 1 - (length v - 1) div 2) 0 @ a
                            @ replicate ((length v - 1) div 2) 0) (rev v))"
proof -
  have a: "a \<noteq> []" using assms by auto
  have "map (\<lambda>k. convolve_at a v (k + (length v - 1) div 2)) [0..<length a]
          = map (\<lambda>k. dot (drop k (replicate (length v - 1 - (length v - 1) div 2) 0 @ a
                            @ replicate ((length v - 1) div 2) 0)) (rev v)) [0..<length a]"
  proof (rule map_cong[OF refl])
    fix k assume "k \<in> set [0..<length a]"
    then have "k < length a" by simp
    from convolve_at_dot[OF this assms(2,1)]
    show "convolve_at a v (k + (length v - 1) div 2)
            = dot (drop k (replicate (length v - 1 - (length v - 1) div 2) 0 @ a
                            @ replicate ((length v - 1) div 2) 0)) (rev v)" .
  qed
  then show ?thesis
    using assms a by (simp add: np_convolve_same_def slide_map)
qed

lemma curve_97_first_attempt:
  "getChessLines window_21_4 curve_97 curve_97 60 60 = Inr (even_lines 12, even_lines 12, True)"
  by (simp add: getChessLines_def window_21_4_def curve_97_def np_convolve_same_slide
      skeletonize_1d_rec skeleton_rec_def np_where_rec pruneLines_def checkMatch_def slice_nat_def
      even_lines_def Let_def)

lemma curve_97_second_attempt:
  "getChessLines window_21_4 curve_97 curve_97 (60 * 0.9) (60 * 0.9)
     = Inr ([12, 24, 42, 60, 72, 84], [12, 24, 42, 60, 72, 84], False)"
  by (simp add: getChessLines_def window_21_4_def curve_97_def np_convolve_same_slide
      skeletonize_1d_rec skeleton_rec_def np_where_rec pruneLines_def checkMatch_def slice_nat_def
      Let_def)

subsection \<open>Tile slicing\<close>

lemma stack_index_inj:
  assumes "i < 8" "j < 8" "i' < 8" "j' < 8"
    and eq: "(7 - j) * 8 + i = (7 - j') * 8 + (i' :: nat)"
  shows "i = i' \<and> j = j'"
proof -
  have "((7 - j) * 8 + i) mod 8 = i" "((7 - j) * 8 + i) div 8 = 7 - j"
    using assms(1) by simp_all
  moreover have "((7 - j') * 8 + i') mod 8 = i'" "((7 - j') * 8 + i') div 8 = 7 - j'"
    using assms(3) by simp_all
  ultimately have "i = i'" "7 - j = 7 - j'"
    using eq by simp_all
  with assms(2,4) show ?thesis by simp
qed

lemma fill_squares_length:
  "fill_squares tile ps squares = Inr squares' \<Longrightarrow> length squares' = length squares"
proof (induction ps arbitrary: squares)
  case Nil
  then show ?case by simp
next
  case (Cons p ps)
  obtain i j where p: "p = (i, j)" by (cases p)
  from Cons.prems obtain t where
    "fill_squares tile ps (squares[(7 - j) * 8 + i := t]) = Inr squares'"
    unfolding p by (auto split: sum.splits)
  from Cons.IH[OF this] show ?case by simp
qed

lemma fill_squares_untouched:
  "fill_squares tile ps squares = Inr squares' \<Longrightarrow>
   list_all (\<lambda>(i, j). (7 - j) * 8 + i \<noteq> k) ps \<Longrightarrow> squares' ! k = squares ! k"
proof (induction ps arbitrary: squares)
  case Nil
  then show ?case by simp
next
  case (Cons p ps)
  obtain i j where p: "p = (i, j)" by (cases p)
  from Cons.prems(1) obtain t where
    r: "fill_squares tile ps (squares[(7 - j) * 8 + i := t]) = Inr squares'"
    unfolding p by (auto split: sum.splits)
  from Cons.prems(2) have ne: "(7 - j) * 8 + i \<noteq> k" and rest: "list_all (\<lambda>(i, j). (7 - j) * 8 + i \<noteq> k) ps"
    unfolding p by simp_all
  from Cons.IH[OF r rest] ne show ?case by simp
qed

lemma fill_squares_lookup:
  assumes "fill_squares tile ps squares = Inr squares'"
    and "distinct ps" and "list_all (\<lambda>(i, j). i < 8 \<and> j < 8) ps"
    and "length squares = 64" and "(i, j) \<in> set ps"
  shows "tile i j = Inr (squares' ! ((7 - j) * 8 + i))"
  using assms
proof (induction ps arbitrary: squares)
  case Nil
  then show ?case by simp
next
  case (Cons p ps)
  obtain i' j' where p: "p = (i', j')" by (cases p)
  from Cons.prems(1) obtain t where
    t: "tile i' j' = Inr t" and
    r: "fill_squares tile ps (squares[(7 - j') * 8 + i' := t]) = Inr squares'"
    unfolding p by (auto split: sum.splits)
  from Cons.prems(3) have b: "i' < 8" "j' < 8" and bs: "list_all (\<lambda>(i, j). i < 8 \<and> j < 8) ps"
    unfolding p by simp_all
  show ?case
  proof (cases "(i, j) = (i', j')")
    case True
    have "list_all (\<lambda>(a, b). (7 - b) * 8 + a \<noteq> (7 - j') * 8 + i') ps"
      unfolding list_all_iff
    proof (intro ballI, clarify)
      fix a b assume ab: "(a, b) \<in> set ps" and eq: "(7 - b) * 8 + a = (7 - j') * 8 + i'"
      from ab bs have "a < 8" "b < 8" by (auto simp: list_all_iff)
      with eq b have "a = i' \<and> b = j'" by (intro stack_index_inj)
      with ab Cons.prems(2) show False unfolding p by simp
    qed
    from fill_squares_untouched[OF r this]
    have "squares' ! ((7 - j') * 8 + i') = t"
      using b Cons.prems(4) by simp
    with t True show ?thesis by simp
  next
    case False
    with Cons.prems(5) have "(i, j) \<in> set ps" unfolding p by auto
    from Cons.IH[OF r _ bs _ this] Cons.prems(2,4) show ?thesis by simp
  qed
qed

lemma fill_squares_returns:
  "list_all (\<lambda>(i, j). \<exists>t. tile i j = Inr t) ps \<Longrightarrow> \<exists>squares'. fill_squares tile ps squares = Inr squares'"
proof (induction ps arbitrary: squares)
  case Nil
  then show ?case by simp
next
  case (Cons p ps)
  obtain i j where p: "p = (i, j)" by (cases p)
  from Cons.prems obtain t where t: "tile i j = Inr t" and
    rest: "list_all (\<lambda>(i, j). \<exists>t. tile i j = Inr t) ps"
    unfolding p by auto
  from Cons.IH[OF rest, of "squares[(7 - j) * 8 + i := t]"] t show ?case
    unfolding p by simp
qed

lemma upt_0_8: "[0..<8] = [0, 1, 2, 3, 4, 5, 6, 7 :: nat]"
  by code_simp

lemma loop_order_distinct: "distinct loop_order"
  unfolding loop_order_def upt_0_8 by simp

lemma loop_order_bounds: "list_all (\<lambda>(i, j). i < 8 \<and> j < 8) loop_order"
  unfolding loop_order_def upt_0_8 by simp

lemma loop_order_member: "i < 8 \<Longrightarrow> j < 8 \<Longrightarrow> (i, j) \<in> set loop_order"
  unfolding loop_order_def by force

lemma getChessTiles_lookup:
  assumes "getChessTiles to_uint8 a lines_x lines_y = Inr squares"
  shows "\<exists>grid. chess_grid a lines_x lines_y = Inr grid \<and> length squares = 64
           \<and> list_all (\<lambda>(i, j). square_tile to_uint8 grid i j = Inr (squares ! ((7 - j) * 8 + i)))
                loop_order"
proof -
  from assms obtain a2 setsx setsy stepx stepy where
    g: "chess_grid a lines_x lines_y = Inr (a2, setsx, setsy, stepx, stepy)" and
    f: "fill_squares (square_tile to_uint8 (a2, setsx, setsy, stepx, stepy)) loop_order
          (replicate 64 (replicate (nat stepy) (replicate (nat stepx) 0))) = Inr squares"
    unfolding getChessTiles_def by (auto split: sum.splits if_splits)
  let ?tile = "square_tile to_uint8 (a2, setsx, setsy, stepx, stepy)"
  have look: "\<And>i j. (i, j) \<in> set loop_order \<Longrightarrow> ?tile i j = Inr (squares ! ((7 - j) * 8 + i))"
    by (rule fill_squares_lookup[OF f loop_order_distinct loop_order_bounds]) simp_all
  have "length squares = 64"
    using fill_squares_length[OF f] by simp
  with g look show ?thesis by (auto simp: list_all_iff)
qed

lemma getChessTiles_tile_at:
  assumes "getChessTiles to_uint8 a lines_x lines_y = Inr squares"
    and "chess_grid a lines_x lines_y = Inr grid" and "i < 8" and "j < 8"
  shows "square_tile to_uint8 grid i j = Inr (squares ! ((7 - j) * 8 + i))"
  using getChessTiles_lookup[OF assms(1)] assms(2) loop_order_member[OF assms(3,4)]
  by (auto simp: list_all_iff)

lemma getChessTiles_length:
  "getChessTiles to_uint8 a lines_x lines_y = Inr squares \<Longrightarrow> length squares = 64"
  using getChessTiles_lookup by blast

lemma getChessTiles_grid:
  "getChessTiles to_uint8 a lines_x lines_y = Inr squares \<Longrightarrow>
   \<exists>grid. chess_grid a lines_x lines_y = Inr grid"
  using getChessTiles_lookup by blast

subsection \<open>The example board\<close>

lemma py_slice_map_upt:
  "lo \<le> hi \<Longrightarrow> hi \<le> n \<Longrightarrow> py_slice (map f [0..<n]) (int lo) (int hi) = map f [lo..<hi]"
  by (simp add: py_slice_def py_bound_def slice_nat_def take_map drop_map min_absorb2)

lemma map_constant:
  "(\<And>x. x \<in> set xs \<Longrightarrow> f x = c) \<Longrightarrow> map f xs = replicate (length xs) c"
  by (induction xs) simp_all

lemma board_40_cell:
  assumes "i < 8" "j < 8"
  shows "py_slice2 board_40 (int (5 * j)) (int (5 * j + 5)) (int (5 * i)) (int (5 * i + 5))
           = replicate 5 (replicate 5 (j * 8 + i))"
proof -
  have rows: "py_slice board_40 (int (5 * j)) (int (5 * j + 5))
                = map (\<lambda>r. map (\<lambda>c. (r div 5) * 8 + c div 5) [0..<40]) [5 * j..<5 * j + 5]"
    unfolding board_40_def using assms(2) by (intro py_slice_map_upt) simp_all
  have cols: "\<And>r. py_slice (map (\<lambda>c. (r div 5) * 8 + c div 5) [0..<40]) (int (5 * i)) (int (5 * i + 5))
                = map (\<lambda>c. (r div 5) * 8 + c div 5) [5 * i..<5 * i + 5]"
    using assms(1) by (intro py_slice_map_upt) simp_all
  have row: "\<And>r. r \<in> set [5 * j..<5 * j + 5] \<Longrightarrow>
               map (\<lambda>c. (r div 5) * 8 + c div 5) [5 * i..<5 * i + 5] = replicate 5 (j * 8 + i)"
  proof -
    fix r assume r: "r \<in> set [5 * j..<5 * j + 5]"
    then have rj: "r div 5 = j" by (simp add: div_nat_eqI mult.commute)
    have "map (\<lambda>c. (r div 5) * 8 + c div 5) [5 * i..<5 * i + 5]
            = replicate (length [5 * i..<5 * i + 5]) (j * 8 + i)"
    proof (rule map_constant)
      fix c assume "c \<in> set [5 * i..<5 * i + 5]"
      then have "c div 5 = i" by (simp add: div_nat_eqI mult.commute)
      with rj show "r div 5 * 8 + c div 5 = j * 8 + i" by simp
    qed
    then show "map (\<lambda>c. (r div 5) * 8 + c div 5) [5 * i..<5 * i + 5] = replicate 5 (j * 8 + i)"
      by simp
  qed
  have "py_slice2 board_40 (int (5 * j)) (int (5 * j + 5)) (int (5 * i)) (int (5 * i + 5))
          = map (\<lambda>r. map (\<lambda>c. (r div 5) * 8 + c div 5) [5 * i..<5 * i + 5]) [5 * j..<5 * j + 5]"
    unfolding py_slice2_def rows by (simp only: map_map o_def cols)
  also have "\<dots> = replicate (length [5 * j..<5 * j + 5]) (replicate 5 (j * 8 + i))"
    by (rule map_constant) (rule row)
  finally show ?thesis by simp
qed

lemma np_pad_edge_none: "np_pad_edge a (0, 0) (0, 0) = Inr a"
  by (simp add: np_pad_edge_def pad_edge_1d_def)

lemma board_40_cell_int:
  "i < 8 \<Longrightarrow> j < 8 \<Longrightarrow>
   py_slice2 board_40 (5 * int j) (5 * int j + 5) (5 * int i) (5 * int i + 5)
     = replicate 5 (replicate 5 (j * 8 + i))"
  using board_40_cell[of i j] by simp

lemma sets_40: "[0, 5, 10, 15, 20, 25, 30, 35, 40] = map (\<lambda>k. 5 * int k) [0..<9]"
  by code_simp

lemma cell_span_40:
  "i < 8 \<Longrightarrow> cell_span [0, 5, 10, 15, 20, 25, 30, 35, 40] 5 i = (5 * int i, 5 * int i + 5, 0, 0)"
  unfolding sets_40 cell_span_def by (simp add: Let_def)

lemma shape1_replicate: "0 < n \<Longrightarrow> shape1 (replicate n row) = length row"
  by (cases n) (simp_all add: shape1_def)

lemma board_40_square_tile:
  assumes "i < 8" "j < 8"
  shows "square_tile of_nat
           (board_40, [0, 5, 10, 15, 20, 25, 30, 35, 40], [0, 5, 10, 15, 20, 25, 30, 35, 40], 5, 5) i j
         = Inr (replicate 5 (replicate 5 (of_nat (j * 8 + i))))"
  using assms
  by (simp add: square_tile_def cell_tile_def cell_span_40 board_40_cell_int np_pad_edge_none
      assign_tile_def shape1_replicate)

lemma py_slice_whole: "py_slice xs 0 (int (length xs)) = xs"
  by (simp add: py_slice_def py_bound_def slice_nat_def)

lemma board_40_shape: "shape0 board_40 = 40" "shape1 board_40 = 40"
  by (simp_all add: shape0_def shape1_def board_40_def upt_conv_Cons)

lemma board_40_grid:
  "chess_grid board_40 (even_lines 5) (even_lines 5)
     = Inr (board_40, [0, 5, 10, 15, 20, 25, 30, 35, 40], [0, 5, 10, 15, 20, 25, 30, 35, 40], 5, 5)"
proof -
  have step: "np_round (np_mean (np_diff (even_lines 5))) = 5"
    by (simp add: even_lines_def np_round_def np_mean_def)
  have pads: "edge_padding 5 5 (even_lines 5) (even_lines 5) 40 40 = (0, 0, 0, 0)"
    by (simp add: edge_padding_def even_lines_def)
  have crop: "py_slice2 board_40 0 40 0 40 = board_40"
  proof -
    have "py_slice board_40 0 (int (length board_40)) = board_40"
      by (rule py_slice_whole)
    moreover have "length board_40 = 40" by (simp add: board_40_def)
    ultimately have r: "py_slice board_40 0 40 = board_40" by simp
    have rows: "\<And>row. row \<in> set board_40 \<Longrightarrow> py_slice row 0 40 = row"
    proof -
      fix row assume "row \<in> set board_40"
      then have "length row = 40" by (auto simp: board_40_def)
      with py_slice_whole[of row] show "py_slice row 0 40 = row" by simp
    qed
    show ?thesis unfolding py_slice2_def r by (rule map_idI) (rule rows)
  qed
  have sets: "map (\<lambda>v. v + 0) ([hd (even_lines 5) - 5] @ even_lines 5 @ [last (even_lines 5) + 5])
               = [0, 5, 10, 15, 20, 25, 30, 35, 40]"
    by (simp add: even_lines_def)
  have ne: "even_lines 5 \<noteq> []" "\<not> length (even_lines 5) < 2"
    by (simp_all add: even_lines_def)
  show ?thesis
    unfolding chess_grid_def
    by (simp only: ne step board_40_shape pads Let_def split np_pad_edge_none sets crop
        if_False simp_thms nat_0 sum.case list.sel last.simps list.simps)
       (simp add: crop)
qed


lemma board_40_returns:
  "\<exists>squares. getChessTiles of_nat board_40 (even_lines 5) (even_lines 5) = Inr squares"
proof -
  let ?grid = "(board_40, [0, 5, 10, 15, 20, 25, 30, 35, 40], [0, 5, 10, 15, 20, 25, 30, 35, 40], 5, 5)
                 :: nat list list \<times> int list \<times> int list \<times> int \<times> int"
  have "list_all (\<lambda>(i, j). \<exists>t. square_tile of_nat ?grid i j = Inr t) loop_order"
    using loop_order_bounds board_40_square_tile
    by (auto simp: list_all_iff)
  from fill_squares_returns[OF this] show ?thesis
    unfolding getChessTiles_def board_40_grid by simp
qed

subsection \<open>Random FEN strings\<close>

lemma join_empty_singletons: "join [] (map (\<lambda>c. [c]) xs) = xs"
proof (induction xs)
  case Nil
  then show ?case by simp
next
  case (Cons x xs)
  then show ?case by (cases xs) simp_all
qed

lemma split_on_no_sep: "sep \<notin> set g \<Longrightarrow> split_on sep g = [g]"
  by (induction g) auto

lemma split_on_append_sep:
  "sep \<notin> set g \<Longrightarrow> split_on sep (g @ sep # rest) = g # split_on sep rest"
  by (induction g) auto

lemma slice_nat_length: "hi \<le> length xs \<Longrightarrow> length (slice_nat xs lo hi) = hi - lo"
  by (auto simp: slice_nat_def)

lemma slice_nat_set: "set (slice_nat xs lo hi) \<subseteq> set xs"
  unfolding slice_nat_def by (meson set_take_subset set_drop_subset subset_trans)

lemma getRandomFEN_unfold:
  "getRandomFEN pieces =
     slice_nat pieces 0 8 @ ''/'' @ slice_nat pieces 8 16 @ ''/'' @ slice_nat pieces 16 24 @ ''/'' @
     slice_nat pieces 24 32 @ ''/'' @ slice_nat pieces 32 40 @ ''/'' @ slice_nat pieces 40 48 @ ''/'' @
     slice_nat pieces 48 56 @ ''/'' @ slice_nat pieces 56 64"
proof -
  have "[0..<8] = [0, 1, 2, 3, 4, 5, 6, 7 :: nat]" by code_simp
  then show ?thesis
    by (simp add: getRandomFEN_def join_empty_singletons)
qed

lemma slices_concat:
  assumes "length (pieces :: char list) = 64"
  shows "slice_nat pieces 0 8 @ slice_nat pieces 8 16 @ slice_nat pieces 16 24 @ slice_nat pieces 24 32 @
         slice_nat pieces 32 40 @ slice_nat pieces 40 48 @ slice_nat pieces 48 56 @ slice_nat pieces 56 64 = pieces"
proof -
  have step: "\<And>k xs. take 8 (drop k xs) @ drop (k + 8) xs = drop k (xs :: char list)"
    by (metis add.commute append_take_drop_id drop_drop)
  have "drop 64 pieces = []" using assms by simp
  then show ?thesis
    unfolding slice_nat_def
    using step[of 0 pieces] step[of 8 pieces] step[of 16 pieces] step[of 24 pieces]
      step[of 32 pieces] step[of 40 pieces] step[of 48 pieces] step[of 56 pieces]
    by simp
qed

subsection \<open>Pixel values of the stack\<close>

lemma float_to_uint8_uint: "uint (float_to_uint8 v) = trunc_toward_zero v mod 256"
  by (simp add: float_to_uint8_def uint_word_of_int)

lemma float_to_uint8_in_range:
  assumes "0 \<le> v" "v < 256"
  shows "uint (float_to_uint8 v) = \<lfloor>v\<rfloor>"
proof -
  have "0 \<le> \<lfloor>v\<rfloor>" using assms(1) by simp
  moreover have "\<lfloor>v\<rfloor> < 256" using assms(2) by (simp add: floor_less_iff)
  ultimately show ?thesis
    using assms(1) by (simp add: float_to_uint8_uint trunc_toward_zero_def)
qed

lemma trunc_in_range:
  "0 \<le> v \<Longrightarrow> v < 256 \<Longrightarrow> trunc_toward_zero v mod 256 = \<lfloor>v\<rfloor>"
  using float_to_uint8_in_range[of v] by (simp add: float_to_uint8_uint)

lemma assign_tile_Inr:
  "assign_tile f rows cols t = Inr p \<Longrightarrow> p = map (map f) (broadcast_to rows cols t)"
  by (auto simp: assign_tile_def broadcast_to_def split: if_splits)

lemma assign_tile_shape:
  "assign_tile f rows cols t = Inr p \<Longrightarrow>
     (length t = rows \<or> length t = 1) \<and> (shape1 t = cols \<or> shape1 t = 1 \<or> t = [])"
  by (auto simp: assign_tile_def split: if_splits)

lemma rectangular_iff: "rectangular a \<longleftrightarrow> (\<forall>row\<in>set a. length row = shape1 a)"
  by (simp add: rectangular_def list_all_iff)

lemma rectangularI:
  assumes "\<And>row. row \<in> set a \<Longrightarrow> length row = n"
  shows "rectangular a"
proof (cases a)
  case Nil
  then show ?thesis by (simp add: rectangular_def)
next
  case (Cons r rs)
  then have "shape1 a = n" using assms[of r] by (simp add: shape1_def)
  with assms show ?thesis by (simp add: rectangular_iff)
qed

lemma pad_edge_1d_set:
  "xs \<noteq> [] \<or> (l = 0 \<and> r = 0) \<Longrightarrow> set (pad_edge_1d xs l r) \<subseteq> set xs"
  by (auto simp: pad_edge_1d_def)

lemma pad_edge_1d_length: "length (pad_edge_1d xs l r) = l + length xs + r"
  by (simp add: pad_edge_1d_def)

lemma np_pad_edge_rect:
  assumes "np_pad_edge a py px = Inr b" and "rectangular a"
  shows "set (concat b) \<subseteq> set (concat a) \<and> rectangular b"
proof -
  let ?g = "\<lambda>row. pad_edge_1d row (fst px) (snd px)"
  from assms(1) have
    b: "b = pad_edge_1d (map ?g a) (fst py) (snd py)" and
    c1: "a \<noteq> [] \<or> (fst py = 0 \<and> snd py = 0)" and
    c2: "shape1 a \<noteq> 0 \<or> (fst px = 0 \<and> snd px = 0)"
    by (auto simp: np_pad_edge_def shape0_def prod_eq_iff split: if_splits)
  have rows: "set b \<subseteq> ?g ` set a"
    unfolding b using pad_edge_1d_set[of "map ?g a" "fst py" "snd py"] c1 by auto
  have cell: "\<And>row. row \<in> set a \<Longrightarrow> set (?g row) \<subseteq> set row"
  proof -
    fix row assume "row \<in> set a"
    with assms(2) have "length row = shape1 a" by (simp add: rectangular_iff)
    with c2 have "row \<noteq> [] \<or> (fst px = 0 \<and> snd px = 0)" by auto
    then show "set (?g row) \<subseteq> set row" by (rule pad_edge_1d_set)
  qed
  have s: "set (concat b) \<subseteq> set (concat a)"
    using rows cell by fastforce
  have "\<And>row. row \<in> set b \<Longrightarrow> length row = fst px + shape1 a + snd px"
  proof -
    fix row assume "row \<in> set b"
    with rows obtain r where r: "r \<in> set a" "row = ?g r" by auto
    with assms(2) have "length r = shape1 a" by (simp add: rectangular_iff)
    with r show "length row = fst px + shape1 a + snd px" by (simp add: pad_edge_1d_length)
  qed
  then have "rectangular b" by (rule rectangularI)
  with s show ?thesis by simp
qed

lemma py_slice_set: "set (py_slice xs lo hi) \<subseteq> set xs"
  unfolding py_slice_def by (rule slice_nat_set)

lemma py_slice_length_cong:
  "length xs = length ys \<Longrightarrow> length (py_slice xs lo hi) = length (py_slice ys lo hi)"
  by (simp add: py_slice_def slice_nat_def)

lemma py_slice2_rect:
  assumes "rectangular a"
  shows "set (concat (py_slice2 a y1 y2 x1 x2)) \<subseteq> set (concat a)
           \<and> rectangular (py_slice2 a y1 y2 x1 x2)"
proof -
  have rows: "set (py_slice a y1 y2) \<subseteq> set a" by (rule py_slice_set)
  have s: "set (concat (py_slice2 a y1 y2 x1 x2)) \<subseteq> set (concat a)"
    unfolding py_slice2_def using rows py_slice_set by fastforce
  have "\<And>row. row \<in> set (py_slice2 a y1 y2 x1 x2) \<Longrightarrow>
          length row = length (py_slice (replicate (shape1 a) undefined) x1 x2)"
  proof -
    fix row assume "row \<in> set (py_slice2 a y1 y2 x1 x2)"
    then obtain r where r: "r \<in> set a" "row = py_slice r x1 x2"
      unfolding py_slice2_def using rows by auto
    with assms have "length r = shape1 a" by (simp add: rectangular_iff)
    then show "length row = length (py_slice (replicate (shape1 a) undefined) x1 x2)"
      unfolding r(2) by (intro py_slice_length_cong) simp
  qed
  then have "rectangular (py_slice2 a y1 y2 x1 x2)" by (rule rectangularI)
  with s show ?thesis by simp
qed

lemma chess_grid_rect:
  assumes "chess_grid a lines_x lines_y = Inr (a2, setsx, setsy, stepx, stepy)"
    and "rectangular a"
  shows "set (concat a2) \<subseteq> set (concat a) \<and> rectangular a2"
proof -
  from assms(1) obtain py px b y1 y2 x1 x2 where
    p: "np_pad_edge a py px = Inr b" and a2: "a2 = py_slice2 b y1 y2 x1 x2"
    unfolding chess_grid_def
    by (auto simp: Let_def split: if_splits prod.splits sum.splits)
  from np_pad_edge_rect[OF p assms(2)] py_slice2_rect[of b y1 y2 x1 x2]
  show ?thesis unfolding a2 by blast
qed

lemma cell_tile_rect:
  assumes "cell_tile a2 setsx setsy stepx stepy i j = Inr t" and "rectangular a2"
  shows "set (concat t) \<subseteq> set (concat a2) \<and> rectangular t"
proof -
  from assms(1) obtain py px y1 y2 x1 x2 where
    p: "np_pad_edge (py_slice2 a2 y1 y2 x1 x2) py px = Inr t"
    unfolding cell_tile_def
    by (auto simp: Let_def split: if_splits prod.splits)
  from np_pad_edge_rect[OF p] py_slice2_rect[OF assms(2), of y1 y2 x1 x2]
  show ?thesis by blast
qed

lemma broadcast_to_set:
  assumes "rectangular t" and "length t = rows \<or> length t = 1"
    and "shape1 t = cols \<or> shape1 t = 1 \<or> t = []"
  shows "set (concat (broadcast_to rows cols t)) \<subseteq> set (concat t)"
proof -
  let ?rs = "if length t = rows then t else replicate rows (hd t)"
  let ?g = "\<lambda>row. if shape1 t = cols then row else replicate cols (hd row)"
  have rows: "set ?rs \<subseteq> set t"
    using assms(2) by (cases t) auto
  have cell: "\<And>row. row \<in> set t \<Longrightarrow> set (?g row) \<subseteq> set row"
  proof -
    fix row assume r: "row \<in> set t"
    with assms(1) have "length row = shape1 t" by (simp add: rectangular_iff)
    with assms(3) r have "shape1 t = cols \<or> length row = 1" by auto
    then show "set (?g row) \<subseteq> set row" by (cases row) auto
  qed
  show ?thesis
    unfolding broadcast_to_def using rows cell by fastforce
qed

lemma broadcast_to_same:
  "length t = rows \<Longrightarrow> shape1 t = cols \<Longrightarrow> broadcast_to rows cols t = t"
  by (simp add: broadcast_to_def)

lemma py_slice_map: "py_slice (map f xs) lo hi = map f (py_slice xs lo hi)"
  by (simp add: py_slice_def slice_nat_def take_map drop_map)

lemma py_slice2_map:
  "py_slice2 (map (map f) a) y1 y2 x1 x2 = map (map f) (py_slice2 a y1 y2 x1 x2)"
  by (simp add: py_slice2_def py_slice_map o_def)

lemma board_40_crop: "py_slice2 board_40 0 40 0 40 = board_40"
proof -
  have "py_slice board_40 0 (int (length board_40)) = board_40"
    by (rule py_slice_whole)
  moreover have "length board_40 = 40" by (simp add: board_40_def)
  ultimately have r: "py_slice board_40 0 40 = board_40" by simp
  have rows: "\<And>row. row \<in> set board_40 \<Longrightarrow> py_slice row 0 40 = row"
  proof -
    fix row assume "row \<in> set board_40"
    then have "length row = 40" by (auto simp: board_40_def)
    with py_slice_whole[of row] show "py_slice row 0 40 = row" by simp
  qed
  show ?thesis unfolding py_slice2_def r by (rule map_idI) (rule rows)
qed

lemma gray_40_shape: "shape0 gray_40 = 40" "shape1 gray_40 = 40"
  by (simp_all add: shape0_def shape1_def gray_40_def board_40_def upt_conv_Cons)

lemma gray_40_rectangular: "rectangular gray_40"
  by (rule rectangularI[where n = 40]) (auto simp: gray_40_def board_40_def)

lemma gray_40_grid:
  "chess_grid gray_40 (even_lines 5) (even_lines 5)
     = Inr (gray_40, [0, 5, 10, 15, 20, 25, 30, 35, 40], [0, 5, 10, 15, 20, 25, 30, 35, 40], 5, 5)"
proof -
  have step: "np_round (np_mean (np_diff (even_lines 5))) = 5"
    by (simp add: even_lines_def np_round_def np_mean_def)
  have pads: "edge_padding 5 5 (even_lines 5) (even_lines 5) 40 40 = (0, 0, 0, 0)"
    by (simp add: edge_padding_def even_lines_def)
  have crop: "py_slice2 gray_40 0 40 0 40 = gray_40"
    unfolding gray_40_def py_slice2_map board_40_crop ..
  have sets: "map (\<lambda>v. v + 0) ([hd (even_lines 5) - 5] @ even_lines 5 @ [last (even_lines 5) + 5])
               = [0, 5, 10, 15, 20, 25, 30, 35, 40]"
    by (simp add: even_lines_def)
  have ne: "even_lines 5 \<noteq> []" "\<not> length (even_lines 5) < 2"
    by (simp_all add: even_lines_def)
  show ?thesis
    unfolding chess_grid_def
    by (simp only: ne step gray_40_shape pads Let_def split np_pad_edge_none sets crop
        if_False simp_thms nat_0 sum.case list.sel last.simps list.simps)
       (simp add: crop)
qed

lemma gray_40_cell_tile:
  assumes "i < 8" "j < 8"
  shows "cell_tile gray_40 [0, 5, 10, 15, 20, 25, 30, 35, 40] [0, 5, 10, 15, 20, 25, 30, 35, 40]
           5 5 i j
         = Inr (replicate 5 (replicate 5 (real (j * 8 + i) * 9 / 2 - 10)))"
  using assms
  by (simp add: cell_tile_def cell_span_40 gray_40_def py_slice2_map board_40_cell_int
      np_pad_edge_none)

lemma gray_40_square_tile:
  assumes "i < 8" "j < 8"
  shows "square_tile float_to_uint8
           (gray_40, [0, 5, 10, 15, 20, 25, 30, 35, 40], [0, 5, 10, 15, 20, 25, 30, 35, 40], 5, 5) i j
         = Inr (replicate 5 (replicate 5 (float_to_uint8 (real (j * 8 + i) * 9 / 2 - 10))))"
  using assms
  by (simp add: square_tile_def gray_40_cell_tile assign_tile_def shape1_replicate)

lemma gray_40_returns:
  "\<exists>squares. getChessTiles float_to_uint8 gray_40 (even_lines 5) (even_lines 5) = Inr squares"
proof -
  let ?grid = "(gray_40, [0, 5, 10, 15, 20, 25, 30, 35, 40], [0, 5, 10, 15, 20, 25, 30, 35, 40], 5, 5)
                 :: real list list \<times> int list \<times> int list \<times> int \<times> int"
  have "list_all (\<lambda>(i, j). \<exists>t. square_tile float_to_uint8 ?grid i j = Inr t) loop_order"
    using loop_order_bounds gray_40_square_tile
    by (auto simp: list_all_iff)
  from fill_squares_returns[OF this] show ?thesis
    unfolding getChessTiles_def gray_40_grid by simp
qed

lemma float_to_uint8_examples:
  "float_to_uint8 (61 / 2) = 30" "float_to_uint8 (- (11 / 2)) = 251"
  "float_to_uint8 (547 / 2) = 17" "float_to_uint8 (511 / 2) = 255"
  by (simp_all add: float_to_uint8_def trunc_toward_zero_def)

section \<open>Properties of the line selection\<close>

text \<open>
  Claim C2. \<open>pruneLines\<close> is documented to prune to 7 lines, and the claim promises either
  the unchanged input or exactly 7 positions. On the strictly increasing input
  0, 2, 4, 6, 8, 10, 12 the first five gaps are within 5 pixels of the initial reference
  gap 0, the counter reaches 5 at gap index 4 with \<open>start_pos = 0\<close>, and the function
  returns the first 6 positions: neither the input nor 7 positions.
\<close>

theorem pruneLines_small_gaps_returns_six:
  "pruneLines [0, 2, 4, 6, 8, 10, 12] = [0, 2, 4, 6, 8, 10]
   \<and> length (pruneLines [0, 2, 4, 6, 8, 10, 12]) = 6
   \<and> sorted_wrt (<) [0, 2, 4, 6, 8, 10, 12 :: int]"
  by (simp add: pruneLines_def slice_nat_def)

text \<open>
  Claim C3. \<open>checkMatch\<close> is documented to check whether 7 consistent lines exist, and the
  claim says it is true exactly when a run of 5 matching gaps exists. It tests the
  counter only after the last gap: for 8 evenly spaced lines the run of 5 exists (gaps 1
  to 5 match gap 0), the sixth matching gap takes the counter to 6, and the result is
  false.
\<close>

theorem checkMatch_eight_even_lines_false:
  "spec_run_of_5 (np_diff [0, 50, 100, 150, 200, 250, 300, 350]) 0 0
   \<and> checkMatch_loop (np_diff [0, 50, 100, 150, 200, 250, 300, 350]) 0 0 = 6
   \<and> \<not> checkMatch [0, 50, 100, 150, 200, 250, 300, 350]"
  by (simp add: checkMatch_def)

text \<open>
  Claim C1. As stated (for every pair of curves, never an exception) the claim fails: for
  an empty response curve \<open>np.convolve\<close> raises ValueError before any flag is computed.
\<close>

theorem getChessLines_empty_curve_raises:
  "getChessLines window_21_4 [] [] 0 0 = Inl ValueError"
  by (simp add: getChessLines_def np_convolve_same_def window_21_4_def)

text \<open>
  Claim C1, amended: for curves (and a window) that are not empty \<open>getChessLines\<close>
  returns, and its flag is true exactly when both pruned line sets have length 7 and pass
  \<open>checkMatch\<close>; with an empty curve it raises ValueError.
\<close>

theorem getChessLines_match_flag:
  "(hdx \<noteq> [] \<and> hdy \<noteq> [] \<and> gaussian_21_4 \<noteq> [] \<longrightarrow>
      (\<exists>lines_x lines_y is_match.
          getChessLines gaussian_21_4 hdx hdy hdx_thresh hdy_thresh
            = Inr (lines_x, lines_y, is_match)
        \<and> is_match = (length lines_x = 7 \<and> length lines_y = 7
                        \<and> checkMatch lines_x \<and> checkMatch lines_y)))
   \<and> (hdx = [] \<or> hdy = [] \<longrightarrow>
        getChessLines gaussian_21_4 hdx hdy hdx_thresh hdy_thresh = Inl ValueError)"
proof (intro conjI impI)
  assume "hdx \<noteq> [] \<and> hdy \<noteq> [] \<and> gaussian_21_4 \<noteq> []"
  then obtain bx "by" where
    "getChessLines gaussian_21_4 hdx hdy hdx_thresh hdy_thresh =
       Inr (pruneLines (np_where (skeletonize_1d bx)),
            pruneLines (np_where (skeletonize_1d by)),
            length (pruneLines (np_where (skeletonize_1d bx))) = 7
            \<and> length (pruneLines (np_where (skeletonize_1d by))) = 7
            \<and> checkMatch (pruneLines (np_where (skeletonize_1d bx)))
            \<and> checkMatch (pruneLines (np_where (skeletonize_1d by))))"
    using getChessLines_returns[of hdx hdy gaussian_21_4 hdx_thresh hdy_thresh] by blast
  then show "\<exists>lines_x lines_y is_match.
          getChessLines gaussian_21_4 hdx hdy hdx_thresh hdy_thresh
            = Inr (lines_x, lines_y, is_match)
        \<and> is_match = (length lines_x = 7 \<and> length lines_y = 7
                        \<and> checkMatch lines_x \<and> checkMatch lines_y)"
    by blast
next
  assume "hdx = [] \<or> hdy = []"
  then show "getChessLines gaussian_21_4 hdx hdy hdx_thresh hdy_thresh = Inl ValueError"
    by (intro getChessLines_raises) auto
qed

theorem getChessLines_match_flag_witness:
  "[1] \<noteq> ([] :: real list) \<and> window_21_4 \<noteq> []
   \<and> (\<exists>lines_x lines_y is_match.
          getChessLines window_21_4 [1] [1] 0 0 = Inr (lines_x, lines_y, is_match)
        \<and> is_match = (length lines_x = 7 \<and> length lines_y = 7
                        \<and> checkMatch lines_x \<and> checkMatch lines_y))
   \<and> getChessLines window_21_4 [] [1] 0 0 = Inl ValueError"
  using getChessLines_match_flag[of "[1]" "[1]" window_21_4 0 0]
        getChessLines_match_flag[of "[]" "[1]" window_21_4 0 0]
  by (simp add: window_21_4_def)

text \<open>
  Claim C8. Whenever \<open>getChessLines\<close> returns, the candidate positions of each axis
  (the indices of the nonzero skeleton entries, before pruning) are strictly increasing,
  each returned line array is the candidate array itself or a contiguous slice of it, and
  each returned line array is strictly increasing.
\<close>

theorem getChessLines_lines_strictly_increasing:
  assumes "getChessLines gaussian_21_4 hdx hdy hdx_thresh hdy_thresh
             = Inr (lines_x, lines_y, is_match)"
  shows "\<exists>skel_x skel_y.
           sorted_wrt (<) (np_where skel_x) \<and> sorted_wrt (<) (np_where skel_y)
         \<and> lines_x = pruneLines (np_where skel_x) \<and> lines_y = pruneLines (np_where skel_y)
         \<and> (lines_x = np_where skel_x \<or> (\<exists>lo hi. lines_x = slice_nat (np_where skel_x) lo hi))
         \<and> (lines_y = np_where skel_y \<or> (\<exists>lo hi. lines_y = slice_nat (np_where skel_y) lo hi))
         \<and> sorted_wrt (<) lines_x \<and> sorted_wrt (<) lines_y"
proof -
  from getChessLines_Inr_form[OF assms] obtain bx "by" where
    x: "lines_x = pruneLines (np_where (skeletonize_1d bx))" and
    y: "lines_y = pruneLines (np_where (skeletonize_1d by))"
    by blast
  let ?sx = "skeletonize_1d bx" and ?sy = "skeletonize_1d by"
  have "sorted_wrt (<) (np_where ?sx)" "sorted_wrt (<) (np_where ?sy)"
    by (rule np_where_strictly_increasing)+
  moreover have "sorted_wrt (<) lines_x" "sorted_wrt (<) lines_y"
    unfolding x y
    by (intro pruneLines_strictly_increasing np_where_strictly_increasing)+
  moreover have "lines_x = np_where ?sx \<or> (\<exists>lo hi. lines_x = slice_nat (np_where ?sx) lo hi)"
    unfolding x by (rule pruneLines_result)
  moreover have "lines_y = np_where ?sy \<or> (\<exists>lo hi. lines_y = slice_nat (np_where ?sy) lo hi)"
    unfolding y by (rule pruneLines_result)
  ultimately show ?thesis using x y by blast
qed

theorem getChessLines_lines_strictly_increasing_witness:
  "getChessLines window_21_4 curve_97 curve_97 60 60
     = Inr ([12, 24, 36, 48, 60, 72, 84], [12, 24, 36, 48, 60, 72, 84], True)
   \<and> sorted_wrt (<) [12, 24, 36, 48, 60, 72, 84 :: int]
   \<and> (\<exists>skel_x. [12, 24, 36, 48, 60, 72, 84] = pruneLines (np_where skel_x)
                 \<and> sorted_wrt (<) (np_where skel_x))"
proof -
  have r: "getChessLines window_21_4 curve_97 curve_97 60 60
             = Inr ([12, 24, 36, 48, 60, 72, 84], [12, 24, 36, 48, 60, 72, 84], True)"
    using curve_97_first_attempt by (simp add: even_lines_def)
  from getChessLines_lines_strictly_increasing[OF r] r show ?thesis
    by blast
qed

text \<open>
  Claim C7. The script does not make the second attempt depend on the first: lines 357
  to 366 call \<open>getChessLines\<close> twice in a row and keep the second result. On the example
  curve (peaks of 100 every 12 samples, one weaker peak of 57 between two of them) and
  the thresholds 60 the first attempt finds the 7 lines and sets the flag; the second
  attempt, with the thresholds 54, also sees the weak peak, finds 6 lines, and the final
  flag is false.
\<close>

theorem detect_chess_lines_overwrites_success:
  "getChessLines window_21_4 curve_97 curve_97 60 60
     = Inr ([12, 24, 36, 48, 60, 72, 84], [12, 24, 36, 48, 60, 72, 84], True)
   \<and> detect_chess_lines window_21_4 curve_97 curve_97 60 60
     = Inr ([12, 24, 42, 60, 72, 84], [12, 24, 42, 60, 72, 84], False)"
  using curve_97_first_attempt curve_97_second_attempt
  by (simp add: detect_chess_lines_def even_lines_def)

text \<open>
  Claim C7, amended: for response curves that are not empty no exception is raised and
  failure shows in the flag alone; detection runs twice unconditionally, with the
  thresholds and then with the thresholds times 0.9, and the result of the second run is
  the final result whatever the first run found. With an empty curve the first call
  raises ValueError.
\<close>

theorem detect_chess_lines_second_attempt:
  "(hdx \<noteq> [] \<and> hdy \<noteq> [] \<and> gaussian_21_4 \<noteq> [] \<longrightarrow>
      detect_chess_lines gaussian_21_4 hdx hdy hdx_thresh hdy_thresh
        = getChessLines gaussian_21_4 hdx hdy (hdx_thresh * 0.9) (hdy_thresh * 0.9)
      \<and> (\<exists>lines_x lines_y is_match.
            detect_chess_lines gaussian_21_4 hdx hdy hdx_thresh hdy_thresh
              = Inr (lines_x, lines_y, is_match)))
   \<and> (hdx = [] \<or> hdy = [] \<longrightarrow>
        detect_chess_lines gaussian_21_4 hdx hdy hdx_thresh hdy_thresh = Inl ValueError)"
proof (intro conjI impI)
  assume ne: "hdx \<noteq> [] \<and> hdy \<noteq> [] \<and> gaussian_21_4 \<noteq> []"
  then obtain r1 where r1: "getChessLines gaussian_21_4 hdx hdy hdx_thresh hdy_thresh = Inr r1"
    using getChessLines_returns[of hdx hdy gaussian_21_4 hdx_thresh hdy_thresh] by blast
  from ne obtain r2 where
    r2: "getChessLines gaussian_21_4 hdx hdy (hdx_thresh * 0.9) (hdy_thresh * 0.9) = Inr r2"
    using getChessLines_returns[of hdx hdy gaussian_21_4 "hdx_thresh * 0.9" "hdy_thresh * 0.9"]
    by blast
  show eq: "detect_chess_lines gaussian_21_4 hdx hdy hdx_thresh hdy_thresh
        = getChessLines gaussian_21_4 hdx hdy (hdx_thresh * 0.9) (hdy_thresh * 0.9)"
    unfolding detect_chess_lines_def r1 by (simp split: prod.splits)
  show "\<exists>lines_x lines_y is_match.
            detect_chess_lines gaussian_21_4 hdx hdy hdx_thresh hdy_thresh
              = Inr (lines_x, lines_y, is_match)"
    unfolding eq r2 by (cases r2) simp
next
  assume "hdx = [] \<or> hdy = []"
  then have "getChessLines gaussian_21_4 hdx hdy hdx_thresh hdy_thresh = Inl ValueError"
    by (intro getChessLines_raises) auto
  then show "detect_chess_lines gaussian_21_4 hdx hdy hdx_thresh hdy_thresh = Inl ValueError"
    unfolding detect_chess_lines_def by simp
qed

theorem detect_chess_lines_second_attempt_witness:
  "curve_97 \<noteq> [] \<and> window_21_4 \<noteq> []
   \<and> detect_chess_lines window_21_4 curve_97 curve_97 60 60
       = getChessLines window_21_4 curve_97 curve_97 (60 * 0.9) (60 * 0.9)
   \<and> (\<exists>lines_x lines_y is_match.
         detect_chess_lines window_21_4 curve_97 curve_97 60 60 = Inr (lines_x, lines_y, is_match))
   \<and> detect_chess_lines window_21_4 [] curve_97 60 60 = Inl ValueError"
proof -
  have ne: "curve_97 \<noteq> []" "window_21_4 \<noteq> []"
    by (simp_all add: curve_97_def window_21_4_def)
  from detect_chess_lines_second_attempt[of curve_97 curve_97 window_21_4 60 60] ne
  have "detect_chess_lines window_21_4 curve_97 curve_97 60 60
          = getChessLines window_21_4 curve_97 curve_97 (60 * 0.9) (60 * 0.9)
        \<and> (\<exists>lines_x lines_y is_match.
              detect_chess_lines window_21_4 curve_97 curve_97 60 60
                = Inr (lines_x, lines_y, is_match))"
    by blast
  moreover from detect_chess_lines_second_attempt[of "[]" curve_97 window_21_4 60 60]
  have "detect_chess_lines window_21_4 [] curve_97 60 60 = Inl ValueError"
    by blast
  ultimately show ?thesis using ne by blast
qed

text \<open>
  Claim C5. The first half of the claim holds, the second does not follow from it:
  \<open>rowIndex\<close> 0 is the top row of the image, so index 0 = (7 - 7) * 8 + 0 holds the
  cell of row 7, column 0, the bottom-left cell. On the 40 by 40 example image, whose
  squares are numbered row by row from the top left, tile 0 shows square 56 (bottom
  left) and tile 63 shows square 7 (top right), as the comment at line 503 says
  (A1, B1, ..., H8 for a white-aligned board).
\<close>

theorem getChessTiles_tile_0_is_bottom_left:
  "stack_tile (getChessTiles of_nat board_40 (even_lines 5) (even_lines 5)) 0
     = Some (replicate 5 (replicate 5 56))
   \<and> stack_tile (getChessTiles of_nat board_40 (even_lines 5) (even_lines 5)) 63
     = Some (replicate 5 (replicate 5 7))
   \<and> py_slice2 board_40 0 5 0 5 = replicate 5 (replicate 5 0)
   \<and> py_slice2 board_40 35 40 0 5 = replicate 5 (replicate 5 56)
   \<and> py_slice2 board_40 0 5 35 40 = replicate 5 (replicate 5 7)
   \<and> py_slice2 board_40 35 40 35 40 = replicate 5 (replicate 5 63)"
proof -
  obtain squares where
    s: "getChessTiles of_nat board_40 (even_lines 5) (even_lines 5) = Inr squares"
    using board_40_returns by blast
  have t0: "square_tile of_nat (board_40, [0, 5, 10, 15, 20, 25, 30, 35, 40],
           [0, 5, 10, 15, 20, 25, 30, 35, 40], 5, 5) 0 7 = Inr (squares ! 0)"
    using getChessTiles_tile_at[OF s board_40_grid, of 0 7] by simp
  have t63: "square_tile of_nat (board_40, [0, 5, 10, 15, 20, 25, 30, 35, 40],
           [0, 5, 10, 15, 20, 25, 30, 35, 40], 5, 5) 7 0 = Inr (squares ! 63)"
    using getChessTiles_tile_at[OF s board_40_grid, of 7 0] by simp
  have len: "length squares = 64"
    using getChessTiles_length[OF s] .
  from t0 t63 have "squares ! 0 = replicate 5 (replicate 5 56)"
    "squares ! 63 = replicate 5 (replicate 5 7)"
    by (simp_all add: board_40_square_tile)
  then have "stack_tile (Inr squares) 0 = Some (replicate 5 (replicate 5 56))"
    "stack_tile (Inr squares) 63 = Some (replicate 5 (replicate 5 7))"
    using len by (simp_all add: stack_tile_def)
  moreover have "py_slice2 board_40 0 5 0 5 = replicate 5 (replicate 5 0)"
    "py_slice2 board_40 35 40 0 5 = replicate 5 (replicate 5 56)"
    "py_slice2 board_40 0 5 35 40 = replicate 5 (replicate 5 7)"
    "py_slice2 board_40 35 40 35 40 = replicate 5 (replicate 5 63)"
    using board_40_cell[of 0 0] board_40_cell[of 0 7] board_40_cell[of 7 0] board_40_cell[of 7 7]
    by simp_all
  ultimately show ?thesis unfolding s by simp
qed

text \<open>
  Claim C5, amended: whenever \<open>getChessTiles\<close> returns, the stack has 64 planes and the
  cell at top-left-origin grid coordinates (rowIndex, colIndex) is stored at index
  (7 - rowIndex) * 8 + colIndex; so index 0 holds the bottom-left cell (row 7, column 0),
  index 63 the top-right cell (row 0, column 7), index 56 the top-left cell and index 7
  the bottom-right cell.
\<close>

theorem getChessTiles_stack_index:
  assumes "getChessTiles to_uint8 a lines_x lines_y = Inr squares"
    and "rowIndex < 8" and "colIndex < 8"
  shows "\<exists>grid. chess_grid a lines_x lines_y = Inr grid
           \<and> square_tile to_uint8 grid colIndex rowIndex
               = Inr (squares ! ((7 - rowIndex) * 8 + colIndex))
           \<and> square_tile to_uint8 grid 0 7 = Inr (squares ! 0)
           \<and> square_tile to_uint8 grid 7 0 = Inr (squares ! 63)
           \<and> square_tile to_uint8 grid 0 0 = Inr (squares ! 56)
           \<and> square_tile to_uint8 grid 7 7 = Inr (squares ! 7)
           \<and> length squares = 64"
proof -
  from getChessTiles_grid[OF assms(1)] obtain grid where
    g: "chess_grid a lines_x lines_y = Inr grid" by blast
  note at = getChessTiles_tile_at[OF assms(1) g]
  from at[of colIndex rowIndex] at[of 0 7] at[of 7 0] at[of 0 0] at[of 7 7]
    getChessTiles_length[OF assms(1)] assms(2,3) g
  show ?thesis by simp
qed

theorem getChessTiles_stack_index_witness:
  "\<exists>squares grid.
      getChessTiles of_nat board_40 (even_lines 5) (even_lines 5) = Inr squares
    \<and> chess_grid board_40 (even_lines 5) (even_lines 5) = Inr grid
    \<and> square_tile of_nat grid 3 2 = Inr (squares ! 43)
    \<and> square_tile of_nat grid 0 7 = Inr (squares ! 0)
    \<and> square_tile of_nat grid 7 0 = Inr (squares ! 63)
    \<and> length squares = 64"
proof -
  obtain squares where
    s: "getChessTiles of_nat board_40 (even_lines 5) (even_lines 5) = Inr squares"
    using board_40_returns by blast
  from getChessTiles_stack_index[OF s, of 2 3] show ?thesis
    unfolding s by auto
qed

text \<open>
  Claim C6. The test for an overhang below the last y line (line 441) adds \<open>stepx\<close>,
  where the three sibling tests add the step of their own axis. The input is an image of
  55 rows and 41 columns with x lines 5, 10, ..., 35 (step 5) and y lines 7, 14, ..., 49
  (step 7). The lower boundary line 49 + 7 = 56 lies 1 pixel beyond the 55 rows, but the
  test reads 49 + 5 > 54, which is false, and no padding is applied. With the steps
  exchanged (41 rows, 57 columns) the boundary 35 + 5 = 40 lies inside the 41 rows, the
  test reads 35 + 7 > 40, and 1 row of padding is applied to a side without overhang.
\<close>

theorem edge_padding_y_overhang_uses_stepx:
  "np_round (np_mean (np_diff (even_lines 5))) = 5
   \<and> np_round (np_mean (np_diff (even_lines 7))) = 7
   \<and> last (even_lines 7) + 7 - 55 = 1
   \<and> edge_padding 5 7 (even_lines 5) (even_lines 7) 55 41 = (0, 0, 0, 0)
   \<and> last (even_lines 5) + 5 < 41
   \<and> edge_padding 7 5 (even_lines 7) (even_lines 5) 41 57 = (0, 1, 0, 0)"
  by (simp add: edge_padding_def even_lines_def np_round_def np_mean_def)

text \<open>
  Claim C4. The image has 55 rows and 41 columns, the x lines are 5, 10, ..., 35 and
  the y lines 7, 14, ..., 49; both line sets are strictly increasing, have 7 entries and
  pass \<open>checkMatch\<close>. The overhang test of line 441 adds \<open>stepx\<close> and does not fire, so
  the crop has 55 rows where 56 are needed; the slice of the first cell of the bottom
  row has 6 rows, and the assignment into the plane of 7 rows raises ValueError: no
  stack of 64 tiles is returned.
\<close>

theorem getChessTiles_raises_on_y_overhang:
  "length (even_lines 5) = 7 \<and> length (even_lines 7) = 7
   \<and> sorted_wrt (<) (even_lines 5) \<and> sorted_wrt (<) (even_lines 7)
   \<and> checkMatch (even_lines 5) \<and> checkMatch (even_lines 7)
   \<and> getChessTiles to_uint8 (replicate 55 (replicate 41 pixel)) (even_lines 5) (even_lines 7)
       = Inl ValueError"
  by code_simp

text \<open>
  Claim C10. The stack is a list of planes of 8-bit words. Whenever \<open>getChessTiles\<close>
  returns on a floating-point image, the plane stored for column \<open>i\<close> and row \<open>j\<close> is
  the padded (edge-replicated) slice of that cell, broadcast to the shape of the plane,
  with every intensity converted by truncation toward zero and reduction modulo 256:
  each pixel, read as an unsigned integer, is the truncation of its source intensity
  modulo 256, and is the integer part of the intensity when that lies in [0, 256), so
  in particular in [0, 255]. For an image whose rows have one length the source
  intensities of a plane are intensities of the image.
\<close>

theorem getChessTiles_pixels_uint8:
  assumes "getChessTiles float_to_uint8 a lines_x lines_y = Inr squares"
    and "chess_grid a lines_x lines_y = Inr (a2, setsx, setsy, stepx, stepy)"
    and "i < 8" and "j < 8"
  shows "\<exists>t. cell_tile a2 setsx setsy stepx stepy i j = Inr t
           \<and> squares ! ((7 - j) * 8 + i)
               = map (map float_to_uint8) (broadcast_to (nat stepy) (nat stepx) t)
           \<and> list_all2 (list_all2 (\<lambda>p v. uint p = trunc_toward_zero v mod 256
                                        \<and> (0 \<le> v \<and> v < 256 \<longrightarrow> uint p = \<lfloor>v\<rfloor>)))
               (squares ! ((7 - j) * 8 + i)) (broadcast_to (nat stepy) (nat stepx) t)
           \<and> (rectangular a \<longrightarrow>
                set (concat (broadcast_to (nat stepy) (nat stepx) t)) \<subseteq> set (concat a))"
proof -
  let ?k = "(7 - j) * 8 + i"
  have at: "square_tile float_to_uint8 (a2, setsx, setsy, stepx, stepy) i j = Inr (squares ! ?k)"
    by (rule getChessTiles_tile_at[OF assms])
  then obtain t where
    t: "cell_tile a2 setsx setsy stepx stepy i j = Inr t" and
    p: "assign_tile float_to_uint8 (nat stepy) (nat stepx) t = Inr (squares ! ?k)"
    by (auto simp: square_tile_def split: sum.splits)
  let ?src = "broadcast_to (nat stepy) (nat stepx) t"
  have eq: "squares ! ?k = map (map float_to_uint8) ?src"
    by (rule assign_tile_Inr[OF p])
  have px: "list_all2 (list_all2 (\<lambda>p v. uint p = trunc_toward_zero v mod 256
                                        \<and> (0 \<le> v \<and> v < 256 \<longrightarrow> uint p = \<lfloor>v\<rfloor>)))
               (squares ! ?k) ?src"
    unfolding eq
    by (simp add: list_all2_map1 list_all2_same float_to_uint8_uint trunc_in_range)
  have src: "rectangular a \<Longrightarrow> set (concat ?src) \<subseteq> set (concat a)"
  proof -
    assume r: "rectangular a"
    from chess_grid_rect[OF assms(2) r] have a2: "set (concat a2) \<subseteq> set (concat a)"
      and r2: "rectangular a2" by simp_all
    from cell_tile_rect[OF t r2] have t2: "set (concat t) \<subseteq> set (concat a2)"
      and rt: "rectangular t" by simp_all
    from assign_tile_shape[OF p] have
      "length t = nat stepy \<or> length t = 1" "shape1 t = nat stepx \<or> shape1 t = 1 \<or> t = []"
      by simp_all
    from broadcast_to_set[OF rt this] a2 t2 show ?thesis by blast
  qed
  from t eq px src show ?thesis by blast
qed

theorem getChessTiles_pixels_uint8_witness:
  "\<exists>squares t.
      getChessTiles float_to_uint8 gray_40 (even_lines 5) (even_lines 5) = Inr squares
    \<and> chess_grid gray_40 (even_lines 5) (even_lines 5)
        = Inr (gray_40, [0, 5, 10, 15, 20, 25, 30, 35, 40], [0, 5, 10, 15, 20, 25, 30, 35, 40], 5, 5)
    \<and> cell_tile gray_40 [0, 5, 10, 15, 20, 25, 30, 35, 40] [0, 5, 10, 15, 20, 25, 30, 35, 40]
          5 5 1 1 = Inr t
    \<and> t = replicate 5 (replicate 5 (61 / 2))
    \<and> squares ! 49 = map (map float_to_uint8) t
    \<and> squares ! 49 = replicate 5 (replicate 5 30)
    \<and> rectangular gray_40
    \<and> set (concat t) \<subseteq> set (concat gray_40)
    \<and> squares ! 57 = replicate 5 (replicate 5 251)
    \<and> squares ! 7 = replicate 5 (replicate 5 17)"
proof -
  obtain squares where
    s: "getChessTiles float_to_uint8 gray_40 (even_lines 5) (even_lines 5) = Inr squares"
    using gray_40_returns by blast
  let ?t = "replicate 5 (replicate 5 (61 / 2 :: real))"
  have c: "cell_tile gray_40 [0, 5, 10, 15, 20, 25, 30, 35, 40] [0, 5, 10, 15, 20, 25, 30, 35, 40]
             5 5 1 1 = Inr ?t"
    using gray_40_cell_tile[of 1 1] by simp
  have b: "broadcast_to (nat 5) (nat 5) ?t = ?t"
    by (rule broadcast_to_same) (simp_all add: shape1_replicate)
  from getChessTiles_pixels_uint8[OF s gray_40_grid, of 1 1] c b gray_40_rectangular
  have p: "squares ! 49 = map (map float_to_uint8) ?t"
    and m: "set (concat ?t) \<subseteq> set (concat gray_40)"
    by simp_all
  from p have v: "squares ! 49 = replicate 5 (replicate 5 30)"
    by (simp add: float_to_uint8_examples)
  have "square_tile float_to_uint8 (gray_40, [0, 5, 10, 15, 20, 25, 30, 35, 40],
           [0, 5, 10, 15, 20, 25, 30, 35, 40], 5, 5) 1 0 = Inr (squares ! 57)"
    using getChessTiles_tile_at[OF s gray_40_grid, of 1 0] by simp
  then have o1: "squares ! 57 = replicate 5 (replicate 5 251)"
    by (simp add: gray_40_square_tile float_to_uint8_examples)
  have "square_tile float_to_uint8 (gray_40, [0, 5, 10, 15, 20, 25, 30, 35, 40],
           [0, 5, 10, 15, 20, 25, 30, 35, 40], 5, 5) 7 7 = Inr (squares ! 7)"
    using getChessTiles_tile_at[OF s gray_40_grid, of 7 7] by simp
  then have o2: "squares ! 7 = replicate 5 (replicate 5 17)"
    by (simp add: gray_40_square_tile float_to_uint8_examples)
  from s gray_40_grid c p v gray_40_rectangular m o1 o2 show ?thesis by blast
qed

text \<open>
  Claim C9. For every array of 64 characters drawn from the charset, the string that
  \<open>getRandomFEN\<close> returns has length 71; cut at the delimiter it gives exactly 8 groups,
  the 8 consecutive slices of 8 drawn characters, each of 8 charset characters, and the
  groups together are the 64 drawn characters in order.
\<close>

theorem getRandomFEN_groups:
  assumes "length pieces = 64" and "set pieces \<subseteq> set fen_chars"
  shows "length (getRandomFEN pieces) = 71
       \<and> split_on CHR ''/'' (getRandomFEN pieces)
           = [slice_nat pieces 0 8, slice_nat pieces 8 16, slice_nat pieces 16 24, slice_nat pieces 24 32,
              slice_nat pieces 32 40, slice_nat pieces 40 48, slice_nat pieces 48 56, slice_nat pieces 56 64]
       \<and> length (split_on CHR ''/'' (getRandomFEN pieces)) = 8
       \<and> list_all (\<lambda>g. length g = 8 \<and> list_all (\<lambda>c. c \<in> set fen_chars) g)
            (split_on CHR ''/'' (getRandomFEN pieces))
       \<and> concat (split_on CHR ''/'' (getRandomFEN pieces)) = pieces"
proof -
  have nosep: "CHR ''/'' \<notin> set fen_chars" by (simp add: fen_chars_def)
  have sub: "\<And>lo hi. set (slice_nat pieces lo hi) \<subseteq> set fen_chars"
    using slice_nat_set assms(2) by (meson subset_trans)
  have ns: "\<And>lo hi. CHR ''/'' \<notin> set (slice_nat pieces lo hi)"
    using sub nosep by blast
  have len: "\<And>lo hi. hi \<le> 64 \<Longrightarrow> length (slice_nat pieces lo hi) = hi - lo"
    by (simp add: slice_nat_length assms(1))
  have sp: "split_on CHR ''/'' (getRandomFEN pieces)
           = [slice_nat pieces 0 8, slice_nat pieces 8 16, slice_nat pieces 16 24, slice_nat pieces 24 32,
              slice_nat pieces 32 40, slice_nat pieces 40 48, slice_nat pieces 48 56, slice_nat pieces 56 64]"
    unfolding getRandomFEN_unfold
    by (simp add: split_on_append_sep split_on_no_sep ns)
  have l: "length (getRandomFEN pieces) = 71"
    unfolding getRandomFEN_unfold by (simp add: len)
  have groups: "list_all (\<lambda>g. length g = 8 \<and> list_all (\<lambda>c. c \<in> set fen_chars) g)
            (split_on CHR ''/'' (getRandomFEN pieces))"
    unfolding sp using sub by (simp add: len list_all_iff subset_iff)
  have cc: "concat (split_on CHR ''/'' (getRandomFEN pieces)) = pieces"
    unfolding sp using slices_concat[OF assms(1)] by simp
  from l sp groups cc show ?thesis by simp
qed

theorem getRandomFEN_groups_witness:
  "length ''rnbqkbnrpppppppp11111111111111111111111111111111PPPPPPPPRNBQKBNR'' = 64
   \<and> getRandomFEN ''rnbqkbnrpppppppp11111111111111111111111111111111PPPPPPPPRNBQKBNR''
       = ''rnbqkbnr/pppppppp/11111111/11111111/11111111/11111111/PPPPPPPP/RNBQKBNR''
   \<and> length (getRandomFEN ''rnbqkbnrpppppppp11111111111111111111111111111111PPPPPPPPRNBQKBNR'') = 71
   \<and> split_on CHR ''/'' (getRandomFEN ''rnbqkbnrpppppppp11111111111111111111111111111111PPPPPPPPRNBQKBNR'')
       = [''rnbqkbnr'', ''pppppppp'', ''11111111'', ''11111111'', ''11111111'', ''11111111'',
          ''PPPPPPPP'', ''RNBQKBNR'']"
  using getRandomFEN_groups[of "''rnbqkbnrpppppppp11111111111111111111111111111111PPPPPPPPRNBQKBNR''"]
  by (simp add: fen_chars_def slice_nat_def getRandomFEN_unfold)

end
